theory Spec2Isabelle
  imports Main
begin

text \<open>
  A verification of the Shuttlers end-to-end test suite: the page object
  \<^verbatim>\<open>ShuttlerSimplePage\<close> with its four methods goto, login, searchRoute and bookTrip,
  the test that chains them and its data, embedded from the JavaScript source; the
  browser-automation library they call, first as a parameter and then as the resolver,
  executor and assertion gate that the specification describes; and the properties the
  specification claims of them.
\<close>

section \<open>Regular expressions used by the page object\<close>

text \<open>
  The page object passes two regular-expression literals to the automation library:
  \<^verbatim>\<open>/.*dashboard.*/\<close> and \<^verbatim>\<open>/pay with/i\<close>. Both are built from literal
  characters, the dot and the star, so that fragment is modelled: a pattern is a list of
  items, searched for anywhere in the subject (JavaScript's \<^verbatim>\<open>RegExp.test\<close> is not
  anchored). Strings are byte lists; the dot rejects the line terminators LF and CR.
  With the \<^verbatim>\<open>i\<close> flag, ASCII letters are compared up to case.
\<close>

datatype re_atom = Lit char | Dot

datatype re_item = One re_atom | Star re_atom

datatype regex = Regex (items: "re_item list") (ignore_case: bool)

definition lower :: "char \<Rightarrow> char" where
  "lower c = (let n = (of_char c :: nat) in if 65 \<le> n \<and> n \<le> 90 then char_of (n + 32) else c)"

fun atom_ok :: "bool \<Rightarrow> re_atom \<Rightarrow> char \<Rightarrow> bool" where
  "atom_ok ic Dot c = (c \<noteq> CHR 0x0A \<and> c \<noteq> CHR 0x0D)"
| "atom_ok ic (Lit d) c = (if ic then lower c = lower d else c = d)"

fun match_here :: "bool \<Rightarrow> re_item list \<Rightarrow> string \<Rightarrow> bool" where
  "match_here ic [] s = True"
| "match_here ic (One a # r) [] = False"
| "match_here ic (One a # r) (c # s) = (atom_ok ic a c \<and> match_here ic r s)"
| "match_here ic (Star a # r) [] = match_here ic r []"
| "match_here ic (Star a # r) (c # s) =
     (match_here ic r (c # s) \<or> (atom_ok ic a c \<and> match_here ic (Star a # r) s))"

fun re_search :: "bool \<Rightarrow> re_item list \<Rightarrow> string \<Rightarrow> bool" where
  "re_search ic r [] = match_here ic r []"
| "re_search ic r (c # s) = (match_here ic r (c # s) \<or> re_search ic r s)"

definition re_test :: "regex \<Rightarrow> string \<Rightarrow> bool" where
  "re_test re s = re_search (ignore_case re) (items re) s"

definition literal :: "string \<Rightarrow> re_item list" where
  "literal s = map (\<lambda>c. One (Lit c)) s"

text \<open>\<^verbatim>\<open>/.*dashboard.*/\<close>, the pattern of the login step's URL assertion.\<close>

definition dashboard_re :: regex where
  "dashboard_re = Regex (Star Dot # literal ''dashboard'' @ [Star Dot]) False"

text \<open>\<^verbatim>\<open>/pay with/i\<close>, the text filter of the booking step's visibility assertion.\<close>

definition pay_with_re :: regex where
  "pay_with_re = Regex (literal ''pay with'') True"

section \<open>Locators and errors\<close>

text \<open>
  A locator is a lazy description of how to find elements; building one has no effect.
  The constructors are the locator calls the page object makes:
  \<^verbatim>\<open>getByRole(role, {name})\<close>, \<^verbatim>\<open>getByText(text, {exact})\<close>,
  \<^verbatim>\<open>getByTestId(id)\<close>, \<^verbatim>\<open>locator(css)\<close>, a locator chained on another
  (\<^verbatim>\<open>locator('i').getByRole('img')\<close>), \<^verbatim>\<open>filter({hasText})\<close> and
  \<^verbatim>\<open>first()\<close>.
\<close>

datatype locator =
    GetByRole string "string option"
  | GetByText string bool
  | GetByTestId string
  | Css string
  | Within locator locator
  | FilterHasText locator regex
  | First locator

text \<open>
  Modelled from the spec: the actionability preconditions of section 4.2, in the order the
  specification lists them.
\<close>

datatype precondition = Attached | Visible | Stable | Enabled | Unobscured

text \<open>
  Modelled from the spec: the two condition types of the Assertion Gate of section 4.4, a
  URL pattern and the visibility of an element.
\<close>

datatype condition = UrlMatches regex | ElementVisible locator

text \<open>
  Modelled from the spec: the \<^verbatim>\<open>lastObserved\<close> of a \<^verbatim>\<open>GateTimeoutError\<close>, the location
  last seen, or an element that was hidden or missing.
\<close>

datatype observed = SawUrl string | SawHidden | SawNoElement

text \<open>
  Modelled from the spec: the kinds of \<^verbatim>\<open>ResolutionError\<close> of section 4.1.
\<close>

datatype resolution_failure = NotFound | Ambiguous | Timeout

text \<open>
  Modelled from the spec: \<^verbatim>\<open>ActionError{NotActionable: reason}\<close> of section 4.2.
\<close>

datatype action_failure = NotActionable string

text \<open>
  Modelled from the spec: the error taxonomy of section 7, as the values a rejected promise
  carries, with two more: \<open>TypeError\<close> is what JavaScript throws when a property of
  \<^verbatim>\<open>undefined\<close> is read, and \<open>NavigationError\<close> is a failed \<^verbatim>\<open>page.goto\<close>.
\<close>

datatype error =
    TypeError string
  | NavigationError string
  | ResolutionError resolution_failure "locator list"
  | ActionError action_failure
  | GateTimeoutError condition observed
  | FlowError nat error

section \<open>The automation library as a parameter\<close>

text \<open>
  An awaited call either resolves with a value or rejects with an error, and changes the
  state it runs in either way.
\<close>

type_synonym ('a, 's) promise = "'s \<Rightarrow> (error + 'a) \<times> 's"

text \<open>
  The browser-automation library is a third-party package. The page object uses five of its
  operations, on a page handle \<open>'p\<close> and a browser state \<open>'w\<close>; they are the fields of
  this record, so that every statement about the page object holds for any behaviour of
  the library.
\<close>

record ('p, 'w) playwright =
  page_goto :: "'p \<Rightarrow> string \<Rightarrow> (unit, 'w) promise"
  locator_fill :: "'p \<Rightarrow> locator \<Rightarrow> string \<Rightarrow> (unit, 'w) promise"
  locator_click :: "'p \<Rightarrow> locator \<Rightarrow> (unit, 'w) promise"
  expect_toHaveURL :: "'p \<Rightarrow> regex \<Rightarrow> nat option \<Rightarrow> (unit, 'w) promise"
  expect_toBeVisible :: "'p \<Rightarrow> locator \<Rightarrow> nat option \<Rightarrow> (unit, 'w) promise"

section \<open>The page object (pages/shuttler.page.js)\<close>

text \<open>
  Objects live in a store, addressed by references, so that "the same object" is equality
  of references. A \<open>ShuttlerSimplePage\<close> has the single field \<open>page\<close>.
\<close>

record 'p ShuttlerSimplePage =
  page :: 'p

type_synonym ref = nat

record ('p, 'w) state =
  objects :: "ref \<rightharpoonup> 'p ShuttlerSimplePage"
  next_ref :: ref
  browser :: 'w

definition return :: "'a \<Rightarrow> ('a, 's) promise" where
  "return x s = (Inr x, s)"

text \<open>\<^verbatim>\<open>await m; k\<close>: a rejection of \<open>m\<close> is thrown out of the async function.\<close>

definition await :: "('a, 's) promise \<Rightarrow> ('a \<Rightarrow> ('b, 's) promise) \<Rightarrow> ('b, 's) promise" where
  "await m k s = (case m s of (Inl e, s') \<Rightarrow> (Inl e, s') | (Inr x, s') \<Rightarrow> k x s')"

text \<open>A call into the library acts on the browser and leaves the object store alone.\<close>

definition lib :: "('a, 'w) promise \<Rightarrow> ('a, ('p, 'w) state) promise" where
  "lib m st = (case m (browser st) of (r, w') \<Rightarrow> (r, st\<lparr>browser := w'\<rparr>))"

text \<open>Reading \<^verbatim>\<open>this.page\<close>.\<close>

definition this_page :: "ref \<Rightarrow> ('p, ('p, 'w) state) promise" where
  "this_page this st =
     (case objects st this of
        None \<Rightarrow> (Inl (TypeError ''Cannot read properties of undefined (reading 'page')''), st)
      | Some obj \<Rightarrow> (Inr (page obj), st))"

text \<open>\<^verbatim>\<open>constructor(page) { this.page = page; }\<close>\<close>

definition new_ShuttlerSimplePage :: "'p \<Rightarrow> ('p, 'w) state \<Rightarrow> ref \<times> ('p, 'w) state" where
  "new_ShuttlerSimplePage p st =
     (next_ref st,
      st\<lparr>objects := (objects st)(next_ref st \<mapsto> \<lparr>page = p\<rparr>), next_ref := Suc (next_ref st)\<rparr>)"

definition goto :: "('p, 'w) playwright \<Rightarrow> ref \<Rightarrow> (ref, ('p, 'w) state) promise" where
  "goto pw this =
     await (this_page this) (\<lambda>p.
     await (lib (page_goto pw p ''https://my.shuttlers.co/auth/login'')) (\<lambda>_.
     return this))"

text \<open>The selector \<^verbatim>\<open>[data-test="login-button"]\<close> of the login button.\<close>

definition login_button :: locator where
  \<open>login_button = Css ''[data-test="login-button"]''\<close>

definition login ::
  "('p, 'w) playwright \<Rightarrow> ref \<Rightarrow> string \<Rightarrow> string \<Rightarrow> (ref, ('p, 'w) state) promise" where
  "login pw this email password =
     await (this_page this) (\<lambda>p.
     await (lib (locator_fill pw p (GetByRole ''textbox'' (Some ''Email Address'')) email)) (\<lambda>_.
     await (this_page this) (\<lambda>p.
     await (lib (locator_fill pw p (GetByRole ''textbox'' (Some ''Password Login with OTP'')) password)) (\<lambda>_.
     await (this_page this) (\<lambda>p.
     await (lib (locator_click pw p login_button)) (\<lambda>_.
     await (this_page this) (\<lambda>p.
     await (lib (expect_toHaveURL pw p dashboard_re (Some 30000))) (\<lambda>_.
     return this))))))))"

definition searchRoute ::
  "('p, 'w) playwright \<Rightarrow> ref \<Rightarrow> string \<Rightarrow> string \<Rightarrow> string \<Rightarrow> string \<Rightarrow> string \<Rightarrow>
     (ref, ('p, 'w) state) promise" where
  "searchRoute pw this pickup pickupExact destination destinationExact date =
     await (this_page this) (\<lambda>p.
     await (lib (locator_fill pw p (GetByRole ''textbox'' (Some ''Pick up location'')) pickup)) (\<lambda>_.
     await (this_page this) (\<lambda>p.
     await (lib (locator_click pw p (GetByText pickupExact True))) (\<lambda>_.
     await (this_page this) (\<lambda>p.
     await (lib (locator_fill pw p (GetByRole ''textbox'' (Some ''Search destination'')) destination)) (\<lambda>_.
     await (this_page this) (\<lambda>p.
     await (lib (locator_click pw p (GetByText destinationExact True))) (\<lambda>_.
     await (this_page this) (\<lambda>p.
     await (lib (locator_click pw p (Within (Css ''i'') (GetByRole ''img'' None)))) (\<lambda>_.
     await (this_page this) (\<lambda>p.
     await (lib (locator_click pw p (GetByText date True))) (\<lambda>_.
     await (this_page this) (\<lambda>p.
     await (lib (locator_click pw p (GetByTestId ''find-trips-btn''))) (\<lambda>_.
     return this))))))))))))))"

text \<open>
  The accessible name of the booking button ends in a currency sign that the source file
  stores as the seven bytes C3 A2 E2 80 9A C2 A6.
\<close>

definition book_trip_name :: string where
  "book_trip_name =
     ''Book Trip '' @ [CHR 0xC3, CHR 0xA2, CHR 0xE2, CHR 0x80, CHR 0x9A, CHR 0xC2, CHR 0xA6]"

definition pay_with_label :: locator where
  "pay_with_label = First (FilterHasText (Css ''label'') pay_with_re)"

definition bookTrip :: "('p, 'w) playwright \<Rightarrow> ref \<Rightarrow> string \<Rightarrow> (ref, ('p, 'w) state) promise" where
  "bookTrip pw this tripId =
     await (this_page this) (\<lambda>p.
     await (lib (locator_click pw p (GetByText tripId False))) (\<lambda>_.
     await (this_page this) (\<lambda>p.
     await (lib (locator_click pw p (GetByRole ''button'' (Some book_trip_name)))) (\<lambda>_.
     await (this_page this) (\<lambda>p.
     await (lib (expect_toBeVisible pw p pay_with_label None)) (\<lambda>_.
     return this))))))"

section \<open>The test and its data (tests/shuttler.spec.js, tests/testData.js)\<close>

record user_data =
  email :: string
  password :: string

record route_data =
  pickup :: string
  pickupExact :: string
  destination :: string
  destinationExact :: string
  date :: string
  tripId :: string

definition user :: user_data where
  "user = \<lparr>email = ''jamesswagz24@gmail.com'', password = ''TestPassword''\<rparr>"

definition route :: route_data where
  "route = \<lparr>pickup = ''festac'', pickupExact = ''Festac Town, Lagos, Nigeria'',
     destination = ''Eko'', destinationExact = ''Eko Hotel Roundabout, Lagos, Nigeria'',
     date = ''20'', tripId = ''FST20006:00 AM''\<rparr>"

text \<open>
  \<^verbatim>\<open>shuttler.goto().then(() => shuttler.login(..)).then(..).then(..)\<close>: each callback
  runs only when the promise before it has resolved.
\<close>

definition Shuttler_Booking :: "('p, 'w) playwright \<Rightarrow> 'p \<Rightarrow> (unit, ('p, 'w) state) promise" where
  "Shuttler_Booking pw pg st =
     (case new_ShuttlerSimplePage pg st of (shuttler, st1) \<Rightarrow>
        (await (goto pw shuttler) (\<lambda>_.
         await (login pw shuttler (email user) (password user)) (\<lambda>_.
         await (searchRoute pw shuttler (pickup route) (pickupExact route) (destination route)
                  (destinationExact route) (date route)) (\<lambda>_.
         await (bookTrip pw shuttler (tripId route)) (\<lambda>_.
         return ()))))) st1)"

section \<open>Steps, calls and traces\<close>

text \<open>
  A caller may invoke the four methods in any order; \<open>run_step\<close> is one invocation and
  \<open>run_steps\<close> a sequence of invocations whose outcomes the caller ignores.
\<close>

datatype step =
    Goto
  | Login string string
  | SearchRoute string string string string string
  | BookTrip string

fun run_step :: "('p, 'w) playwright \<Rightarrow> ref \<Rightarrow> step \<Rightarrow> (ref, ('p, 'w) state) promise" where
  "run_step pw this Goto = goto pw this"
| "run_step pw this (Login e p) = login pw this e p"
| "run_step pw this (SearchRoute a b c d e) = searchRoute pw this a b c d e"
| "run_step pw this (BookTrip t) = bookTrip pw this t"

fun run_steps :: "('p, 'w) playwright \<Rightarrow> ref \<Rightarrow> step list \<Rightarrow> ('p, 'w) state \<Rightarrow> ('p, 'w) state" where
  "run_steps pw this [] st = st"
| "run_steps pw this (s # ss) st = run_steps pw this ss (snd (run_step pw this s st))"

text \<open>The library calls a method makes, as data.\<close>

datatype call =
    CGoto string
  | CFill locator string
  | CClick locator
  | CToHaveURL regex "nat option"
  | CToBeVisible locator "nat option"

fun exec_call :: "('p, 'w) playwright \<Rightarrow> 'p \<Rightarrow> call \<Rightarrow> (unit, 'w) promise" where
  "exec_call pw p (CGoto u) = page_goto pw p u"
| "exec_call pw p (CFill l v) = locator_fill pw p l v"
| "exec_call pw p (CClick l) = locator_click pw p l"
| "exec_call pw p (CToHaveURL r t) = expect_toHaveURL pw p r t"
| "exec_call pw p (CToBeVisible l t) = expect_toBeVisible pw p l t"

text \<open>
  Running a list of calls in order, numbered from \<open>i\<close>, up to the first one that
  rejects; the result names its index and its error.
\<close>

fun run_calls ::
  "('p, 'w) playwright \<Rightarrow> 'p \<Rightarrow> nat \<Rightarrow> call list \<Rightarrow> 'w \<Rightarrow> ((nat \<times> error) + unit) \<times> 'w" where
  "run_calls pw p i [] w = (Inr (), w)"
| "run_calls pw p i (c # cs) w =
     (case exec_call pw p c w of
        (Inl e, w') \<Rightarrow> (Inl (i, e), w')
      | (Inr _, w') \<Rightarrow> run_calls pw p (Suc i) cs w')"

definition login_url :: string where
  "login_url = ''https://my.shuttlers.co/auth/login''"

definition goto_calls :: "call list" where
  "goto_calls = [CGoto login_url]"

definition login_calls :: "string \<Rightarrow> string \<Rightarrow> call list" where
  "login_calls e p =
     [CFill (GetByRole ''textbox'' (Some ''Email Address'')) e,
      CFill (GetByRole ''textbox'' (Some ''Password Login with OTP'')) p,
      CClick login_button,
      CToHaveURL dashboard_re (Some 30000)]"

definition searchRoute_calls :: "string \<Rightarrow> string \<Rightarrow> string \<Rightarrow> string \<Rightarrow> string \<Rightarrow> call list" where
  "searchRoute_calls a b c d e =
     [CFill (GetByRole ''textbox'' (Some ''Pick up location'')) a,
      CClick (GetByText b True),
      CFill (GetByRole ''textbox'' (Some ''Search destination'')) c,
      CClick (GetByText d True),
      CClick (Within (Css ''i'') (GetByRole ''img'' None)),
      CClick (GetByText e True),
      CClick (GetByTestId ''find-trips-btn'')]"

definition bookTrip_calls :: "string \<Rightarrow> call list" where
  "bookTrip_calls t =
     [CClick (GetByText t False),
      CClick (GetByRole ''button'' (Some book_trip_name)),
      CToBeVisible pay_with_label None]"

fun step_calls :: "step \<Rightarrow> call list" where
  "step_calls Goto = goto_calls"
| "step_calls (Login e p) = login_calls e p"
| "step_calls (SearchRoute a b c d e) = searchRoute_calls a b c d e"
| "step_calls (BookTrip t) = bookTrip_calls t"

definition booking_calls :: "call list" where
  "booking_calls =
     goto_calls @ login_calls (email user) (password user)
       @ searchRoute_calls (pickup route) (pickupExact route) (destination route)
           (destinationExact route) (date route)
       @ bookTrip_calls (tripId route)"

text \<open>
  A library that records, in the browser state, every call made to it and whether the call
  resolved (\<open>True\<close>) or rejected (\<open>False\<close>), and otherwise behaves as \<open>pw\<close>.
\<close>

type_synonym trace = "(call \<times> bool) list"

definition logged :: "call \<Rightarrow> (unit, 'w) promise \<Rightarrow> (unit, 'w \<times> trace) promise" where
  "logged c m = (\<lambda>(w, tr). case m w of (r, w') \<Rightarrow> (r, (w', tr @ [(c, \<not> isl r)])))"

definition traced :: "('p, 'w) playwright \<Rightarrow> ('p, 'w \<times> trace) playwright" where
  "traced pw =
     \<lparr>page_goto = (\<lambda>p u. logged (CGoto u) (page_goto pw p u)),
      locator_fill = (\<lambda>p l v. logged (CFill l v) (locator_fill pw p l v)),
      locator_click = (\<lambda>p l. logged (CClick l) (locator_click pw p l)),
      expect_toHaveURL = (\<lambda>p r t. logged (CToHaveURL r t) (expect_toHaveURL pw p r t)),
      expect_toBeVisible = (\<lambda>p l t. logged (CToBeVisible l t) (expect_toBeVisible pw p l t))\<rparr>"

text \<open>
  What the recording library has appended to the trace when a run of calls numbered from
  \<open>i\<close> ends with result \<open>r\<close>: every call before the failing one resolved, the failing
  one rejected, and no later call was made.
\<close>

fun calls_trace :: "(nat \<times> error) + unit \<Rightarrow> nat \<Rightarrow> call list \<Rightarrow> trace" where
  "calls_trace (Inr _) i cs = map (\<lambda>c. (c, True)) cs"
| "calls_trace (Inl (k, e)) i cs = map (\<lambda>c. (c, True)) (take (k - i) cs) @ [(cs ! (k - i), False)]"

text \<open>
  Modelled from the spec: \<^verbatim>\<open>runFlow\<close> of section 4.3, which the repository does not
  contain. It executes the pairs in declaration order; the first failure aborts the
  remaining ones and is wrapped into \<^verbatim>\<open>FlowError{stepIndex, cause}\<close>.
\<close>

definition runFlow :: "('p, 'w) playwright \<Rightarrow> 'p \<Rightarrow> call list \<Rightarrow> (unit, 'w) promise" where
  "runFlow pw p flow w =
     (case run_calls pw p 0 flow w of
        (Inl (i, e), w') \<Rightarrow> (Inl (FlowError i e), w')
      | (Inr _, w') \<Rightarrow> (Inr (), w'))"

text \<open>
  How a method reports the run of its calls: the cause of the first failure as it is, or
  \<^verbatim>\<open>this\<close>.
\<close>

definition finish ::
  "ref \<Rightarrow> ('p, 'w) state \<Rightarrow> ((nat \<times> error) + unit) \<times> 'w \<Rightarrow> (error + ref) \<times> ('p, 'w) state" where
  "finish this st r =
     (case r of
        (Inl (i, e), w') \<Rightarrow> (Inl e, st\<lparr>browser := w'\<rparr>)
      | (Inr _, w') \<Rightarrow> (Inr this, st\<lparr>browser := w'\<rparr>))"

section \<open>The automation core of the specification\<close>

text \<open>
  Modelled from the spec: the user actions of section 2, fill and click.
\<close>

datatype action = Fill string | Click

text \<open>
  Modelled from the spec: the document and browser context provider of section 6, an
  external collaborator that the repository does not contain. The core consumes
  navigation, the current location, a query for the elements matching one strategy (in
  document order), the actionability preconditions of an element, the interaction
  primitives, and the passing of one polling interval.
\<close>

record ('p, 'h, 'w) engine =
  navigate :: "'p \<Rightarrow> string \<Rightarrow> (unit, 'w) promise"
  location :: "'p \<Rightarrow> 'w \<Rightarrow> string"
  query :: "'p \<Rightarrow> locator \<Rightarrow> 'w \<Rightarrow> 'h list"
  holds :: "precondition \<Rightarrow> 'h \<Rightarrow> 'w \<Rightarrow> bool"
  perform :: "'h \<Rightarrow> action \<Rightarrow> 'w \<Rightarrow> 'w"
  elapse :: "'w \<Rightarrow> 'w"

text \<open>
  Modelled from the spec: the configured timeouts and the fixed polling interval, in
  milliseconds.
\<close>

record config =
  poll_interval :: nat
  action_timeout :: nat
  expect_timeout :: nat

text \<open>
  Modelled from the spec: a wait of \<open>ms\<close> milliseconds observes the document at once and
  then after each of \<open>polls cfg ms\<close> intervals, the last one no later than \<open>ms\<close>.
\<close>

definition polls :: "config \<Rightarrow> nat \<Rightarrow> nat" where
  "polls cfg ms = ms div poll_interval cfg"

text \<open>
  Modelled from the spec: the \<^verbatim>\<open>ElementDescriptor\<close> of sections 3 and 9, one optional
  selector for each strategy and an ordinal selector.
\<close>

record descriptor =
  testid :: "locator option"
  role_label :: "locator option"
  visible_text :: "locator option"
  css_fallback :: "locator list"
  ordinal :: "nat option"

text \<open>
  Modelled from the spec: the descriptor that specifies no strategy; section 4.1 requires
  at least one, and the other descriptors are made from this one.
\<close>

definition no_strategy :: descriptor where
  "no_strategy =
     \<lparr>testid = None, role_label = None, visible_text = None, css_fallback = [], ordinal = None\<rparr>"

text \<open>
  Modelled from the spec: the fixed priority order of section 4.1, exact test-id match,
  then semantic role and label, then visible text, then the CSS fallback list.
\<close>

definition attempts :: "descriptor \<Rightarrow> locator list" where
  "attempts d =
     (case testid d of None \<Rightarrow> [] | Some s \<Rightarrow> [s])
     @ (case role_label d of None \<Rightarrow> [] | Some s \<Rightarrow> [s])
     @ (case visible_text d of None \<Rightarrow> [] | Some s \<Rightarrow> [s])
     @ css_fallback d"

text \<open>
  Modelled from the spec: the four strategies of section 4.1.
\<close>

datatype strategy = ByTestId | ByRoleLabel | ByVisibleText | ByCss

text \<open>
  Modelled from the spec: the strategy that a locator of the page object names. A
  chained, filtered or ordinal locator names the strategy of the locator it refines.
\<close>

fun strategy_of :: "locator \<Rightarrow> strategy" where
  "strategy_of (GetByTestId t) = ByTestId"
| "strategy_of (GetByRole r n) = ByRoleLabel"
| "strategy_of (GetByText t e) = ByVisibleText"
| "strategy_of (Css s) = ByCss"
| "strategy_of (Within a b) = strategy_of b"
| "strategy_of (FilterHasText l r) = strategy_of l"
| "strategy_of (First l) = strategy_of l"

text \<open>
  Modelled from the spec: the descriptor of a locator of the page object. Each locator
  names one strategy; \<^verbatim>\<open>first()\<close> is the ordinal selector "first match".
\<close>

fun descriptor_of :: "locator \<Rightarrow> descriptor" where
  "descriptor_of (First l) = (descriptor_of l)\<lparr>ordinal := Some 0\<rparr>"
| "descriptor_of l =
     (case strategy_of l of
        ByTestId \<Rightarrow> no_strategy\<lparr>testid := Some l\<rparr>
      | ByRoleLabel \<Rightarrow> no_strategy\<lparr>role_label := Some l\<rparr>
      | ByVisibleText \<Rightarrow> no_strategy\<lparr>visible_text := Some l\<rparr>
      | ByCss \<Rightarrow> no_strategy\<lparr>css_fallback := [l]\<rparr>)"

text \<open>
  Modelled from the spec: one observation of one strategy (section 4.1). It yields the
  element when the match is unique; ties are resolved by the ordinal selector, which
  defaults to the first match in document order.
\<close>

definition pick :: "nat option \<Rightarrow> 'h list \<Rightarrow> 'h option" where
  "pick ord hs =
     (case hs of
        [] \<Rightarrow> None
      | [h] \<Rightarrow> Some h
      | _ \<Rightarrow>
         (let i = (case ord of None \<Rightarrow> 0 | Some i \<Rightarrow> i)
          in if i < length hs then Some (hs ! i) else None))"

text \<open>
  Modelled from the spec: one strategy is polled at the fixed interval until it yields an
  element or the budget of intervals is used up; what is left of the budget is returned.
\<close>

fun poll_strategy ::
  "('p, 'h, 'w) engine \<Rightarrow> 'p \<Rightarrow> nat option \<Rightarrow> locator \<Rightarrow> nat \<Rightarrow> 'w \<Rightarrow> 'h option \<times> nat \<times> 'w" where
  "poll_strategy eng p ord s 0 w = (pick ord (query eng p s w), 0, w)"
| "poll_strategy eng p ord s (Suc n) w =
     (case pick ord (query eng p s w) of
        Some h \<Rightarrow> (Some h, Suc n, w)
      | None \<Rightarrow> poll_strategy eng p ord s n (elapse eng w))"

text \<open>
  Modelled from the spec: the strategies are tried in the given order on a shared budget.
\<close>

fun try_strategies ::
  "('p, 'h, 'w) engine \<Rightarrow> 'p \<Rightarrow> nat option \<Rightarrow> locator list \<Rightarrow> nat \<Rightarrow> 'w \<Rightarrow> 'h option \<times> nat \<times> 'w" where
  "try_strategies eng p ord [] n w = (None, n, w)"
| "try_strategies eng p ord (s # ss) n w =
     (case poll_strategy eng p ord s n w of
        (Some h, n', w') \<Rightarrow> (Some h, n', w')
      | (None, n', w') \<Rightarrow> try_strategies eng p ord ss n' w')"

text \<open>
  Modelled from the spec: the kind of a \<^verbatim>\<open>ResolutionError\<close>. The specification names
  the three kinds and not when each applies; here a strategy left with several matches
  makes the failure \<open>Ambiguous\<close>, a resolution without budget fails as \<open>NotFound\<close>, and
  any other as \<open>Timeout\<close>.
\<close>

definition failure_kind ::
  "('p, 'h, 'w) engine \<Rightarrow> 'p \<Rightarrow> locator list \<Rightarrow> nat \<Rightarrow> 'w \<Rightarrow> resolution_failure" where
  "failure_kind eng p ss budget w =
     (if list_ex (\<lambda>s. 1 < length (query eng p s w)) ss then Ambiguous
      else if budget = 0 then NotFound else Timeout)"

text \<open>
  Modelled from the spec: the Locator Resolver of section 4.1,
  \<^verbatim>\<open>resolve(session, descriptor, timeout)\<close>. It yields the element and the budget left,
  or a \<^verbatim>\<open>ResolutionError\<close> listing the strategies tried.
\<close>

definition resolve ::
  "('p, 'h, 'w) engine \<Rightarrow> 'p \<Rightarrow> descriptor \<Rightarrow> nat \<Rightarrow> ('h \<times> nat, 'w) promise" where
  "resolve eng p d budget w =
     (case try_strategies eng p (ordinal d) (attempts d) budget w of
        (Some h, n, w') \<Rightarrow> (Inr (h, n), w')
      | (None, n, w') \<Rightarrow>
          (Inl (ResolutionError (failure_kind eng p (attempts d) budget w') (attempts d)), w'))"

text \<open>
  Modelled from the spec: the preconditions of section 4.2 in the order they are checked.
\<close>

definition preconditions :: "precondition list" where
  "preconditions = [Attached, Visible, Stable, Enabled, Unobscured]"

text \<open>
  Modelled from the spec: the reason reported for a failing precondition, "not visible"
  for a hidden element as in Scenario 2.
\<close>

fun reason :: "precondition \<Rightarrow> string" where
  "reason Attached = ''not attached''"
| "reason Visible = ''not visible''"
| "reason Stable = ''not stable''"
| "reason Enabled = ''not enabled''"
| "reason Unobscured = ''obscured''"

text \<open>
  Modelled from the spec: the first precondition of section 4.2 that fails in one
  observation, if any.
\<close>

definition first_failing :: "('p, 'h, 'w) engine \<Rightarrow> 'h \<Rightarrow> 'w \<Rightarrow> precondition option" where
  "first_failing eng h w = find (\<lambda>c. \<not> holds eng c h w) preconditions"

text \<open>
  Modelled from the spec: the Action Executor of section 4.2. The preconditions are polled
  again after each interval; once they all hold the action is applied exactly once; when
  the budget is used up the first failing precondition is reported.
\<close>

fun act :: "('p, 'h, 'w) engine \<Rightarrow> 'h \<Rightarrow> action \<Rightarrow> nat \<Rightarrow> (unit, 'w) promise" where
  "act eng h a 0 w =
     (case first_failing eng h w of
        None \<Rightarrow> (Inr (), perform eng h a w)
      | Some c \<Rightarrow> (Inl (ActionError (NotActionable (reason c))), w))"
| "act eng h a (Suc n) w =
     (case first_failing eng h w of
        None \<Rightarrow> (Inr (), perform eng h a w)
      | Some c \<Rightarrow> act eng h a n (elapse eng w))"

text \<open>
  Modelled from the spec: the element a descriptor denotes in one observation, by the
  first strategy in priority order that yields one.
\<close>

fun locate_now ::
  "('p, 'h, 'w) engine \<Rightarrow> 'p \<Rightarrow> nat option \<Rightarrow> locator list \<Rightarrow> 'w \<Rightarrow> 'h option" where
  "locate_now eng p ord [] w = None"
| "locate_now eng p ord (s # ss) w =
     (case pick ord (query eng p s w) of
        Some h \<Rightarrow> Some h
      | None \<Rightarrow> locate_now eng p ord ss w)"

text \<open>
  Modelled from the spec: what a failed gate reports as last observed.
\<close>

fun observe :: "('p, 'h, 'w) engine \<Rightarrow> 'p \<Rightarrow> condition \<Rightarrow> 'w \<Rightarrow> observed" where
  "observe eng p (UrlMatches r) w = SawUrl (location eng p w)"
| "observe eng p (ElementVisible l) w =
     (case locate_now eng p (ordinal (descriptor_of l)) (attempts (descriptor_of l)) w of
        None \<Rightarrow> SawNoElement
      | Some h \<Rightarrow> SawHidden)"

text \<open>
  Modelled from the spec: whether one observation satisfies a condition of section 4.4.
\<close>

fun satisfied :: "('p, 'h, 'w) engine \<Rightarrow> 'p \<Rightarrow> condition \<Rightarrow> 'w \<Rightarrow> bool" where
  "satisfied eng p (UrlMatches r) w = re_test r (location eng p w)"
| "satisfied eng p (ElementVisible l) w =
     (case locate_now eng p (ordinal (descriptor_of l)) (attempts (descriptor_of l)) w of
        None \<Rightarrow> False
      | Some h \<Rightarrow> holds eng Visible h w)"

text \<open>
  Modelled from the spec: the Assertion Gate of section 4.4. It polls at the fixed
  interval, succeeds on the first satisfying observation and fails with
  \<^verbatim>\<open>GateTimeoutError{condition, lastObserved}\<close> when the budget is used up.
\<close>

fun await_gate :: "('p, 'h, 'w) engine \<Rightarrow> 'p \<Rightarrow> condition \<Rightarrow> nat \<Rightarrow> (unit, 'w) promise" where
  "await_gate eng p c 0 w =
     (if satisfied eng p c w then (Inr (), w)
      else (Inl (GateTimeoutError c (observe eng p c w)), w))"
| "await_gate eng p c (Suc n) w =
     (if satisfied eng p c w then (Inr (), w)
      else await_gate eng p c n (elapse eng w))"

text \<open>
  Modelled from the spec: a fill or a click on a locator, the resolver of 4.1 followed by
  the executor of 4.2, which gets what is left of the action timeout.
\<close>

definition interact ::
  "('p, 'h, 'w) engine \<Rightarrow> config \<Rightarrow> 'p \<Rightarrow> locator \<Rightarrow> action \<Rightarrow> (unit, 'w) promise" where
  "interact eng cfg p l a w =
     (case resolve eng p (descriptor_of l) (polls cfg (action_timeout cfg)) w of
        (Inl e, w') \<Rightarrow> (Inl e, w')
      | (Inr (h, n), w') \<Rightarrow> act eng h a n w')"

text \<open>
  Modelled from the spec: the polls of an assertion, from its \<^verbatim>\<open>timeout\<close> option or
  else from the configured assertion timeout.
\<close>

definition gate_budget :: "config \<Rightarrow> nat option \<Rightarrow> nat" where
  "gate_budget cfg t = polls cfg (case t of None \<Rightarrow> expect_timeout cfg | Some ms \<Rightarrow> ms)"

text \<open>
  Modelled from the spec: the five library operations the page object uses, composed
  from the resolver, the executor and the gate of section 4.
\<close>

definition core :: "('p, 'h, 'w) engine \<Rightarrow> config \<Rightarrow> ('p, 'w) playwright" where
  "core eng cfg =
     \<lparr>page_goto = navigate eng,
      locator_fill = (\<lambda>p l v. interact eng cfg p l (Fill v)),
      locator_click = (\<lambda>p l. interact eng cfg p l Click),
      expect_toHaveURL = (\<lambda>p r t. await_gate eng p (UrlMatches r) (gate_budget cfg t)),
      expect_toBeVisible = (\<lambda>p l t. await_gate eng p (ElementVisible l) (gate_budget cfg t))\<rparr>"

section \<open>A small simulated site\<close>

text \<open>
  A concrete engine on which the statements below are run: a page is a list of elements,
  a handle is an index into it, and a click schedules events (a redirect, the reveal of an
  element) that fire after a number of polling intervals.
\<close>

datatype sim_event = Redirect string | Reveal nat

record sim_elem =
  selectors :: "locator list"
  shown :: bool
  content :: string
  on_click :: "(nat \<times> sim_event) list"

record sim =
  url :: string
  elems :: "sim_elem list"
  pending :: "(nat \<times> sim_event) list"

fun sim_match :: "locator \<Rightarrow> sim_elem \<Rightarrow> bool" where
  "sim_match (FilterHasText l r) e = (sim_match l e \<and> re_test r (content e))"
| "sim_match (First l) e = sim_match l e"
| "sim_match l e = (l \<in> set (selectors e))"

fun sim_fire :: "sim_event \<Rightarrow> sim \<Rightarrow> sim" where
  "sim_fire (Redirect u) w = w\<lparr>url := u\<rparr>"
| "sim_fire (Reveal i) w =
     (if i < length (elems w) then w\<lparr>elems := (elems w)[i := (elems w ! i)\<lparr>shown := True\<rparr>]\<rparr>
      else w)"

definition sim_elapse :: "sim \<Rightarrow> sim" where
  "sim_elapse w =
     fold sim_fire (map snd (filter (\<lambda>(d, e). d \<le> 1) (pending w)))
       (w\<lparr>pending := map (\<lambda>(d, e). (d - 1, e)) (filter (\<lambda>(d, e). 1 < d) (pending w))\<rparr>)"

definition sim_query :: "nat \<Rightarrow> locator \<Rightarrow> sim \<Rightarrow> nat list" where
  "sim_query p l w = filter (\<lambda>i. sim_match l (elems w ! i)) [0..<length (elems w)]"

definition sim_holds :: "precondition \<Rightarrow> nat \<Rightarrow> sim \<Rightarrow> bool" where
  "sim_holds c h w =
     (h < length (elems w) \<and> (case c of Visible \<Rightarrow> shown (elems w ! h) | _ \<Rightarrow> True))"

definition sim_perform :: "nat \<Rightarrow> action \<Rightarrow> sim \<Rightarrow> sim" where
  "sim_perform h a w =
     (if h < length (elems w) then
        (case a of
           Fill v \<Rightarrow> w\<lparr>elems := (elems w)[h := (elems w ! h)\<lparr>content := v\<rparr>]\<rparr>
         | Click \<Rightarrow> w\<lparr>pending := pending w @ on_click (elems w ! h)\<rparr>)
      else w)"

definition sim_engine :: "(nat, nat, sim) engine" where
  "sim_engine =
     \<lparr>navigate = (\<lambda>p u w. (Inr (), w\<lparr>url := u\<rparr>)),
      location = (\<lambda>p w. url w),
      query = sim_query,
      holds = sim_holds,
      perform = sim_perform,
      elapse = sim_elapse\<rparr>"

definition sim_cfg :: config where
  "sim_cfg = \<lparr>poll_interval = 100, action_timeout = 300, expect_timeout = 500\<rparr>"

text \<open>
  The login page: the two text boxes with their contents and the login button, which may be
  hidden and which redirects to the dashboard two intervals after a click.
\<close>

definition dashboard_url :: string where
  "dashboard_url = ''https://my.shuttlers.co/dashboard''"

definition login_page :: "bool \<Rightarrow> string \<Rightarrow> string \<Rightarrow> string \<Rightarrow> (nat \<times> sim_event) list \<Rightarrow> sim" where
  "login_page button_shown em pw u evs =
     \<lparr>url = u,
      elems =
        [\<lparr>selectors = [GetByRole ''textbox'' (Some ''Email Address'')], shown = True,
           content = em, on_click = []\<rparr>,
         \<lparr>selectors = [GetByRole ''textbox'' (Some ''Password Login with OTP'')], shown = True,
           content = pw, on_click = []\<rparr>,
         \<lparr>selectors = [login_button], shown = button_shown,
           content = ''Login'', on_click = [(2, Redirect dashboard_url)]\<rparr>],
      pending = evs\<rparr>"

text \<open>The trip list: a trip, the booking button, and a payment label revealed by the button.\<close>

definition trips_page :: "bool \<Rightarrow> (nat \<times> sim_event) list \<Rightarrow> sim" where
  "trips_page label_shown evs =
     \<lparr>url = ''https://my.shuttlers.co/trips'',
      elems =
        [\<lparr>selectors = [GetByText ''FST20006:00 AM'' False], shown = True,
           content = ''FST20006:00 AM'', on_click = []\<rparr>,
         \<lparr>selectors = [GetByRole ''button'' (Some book_trip_name)], shown = True,
           content = ''Book Trip'', on_click = [(1, Reveal 2)]\<rparr>,
         \<lparr>selectors = [Css ''label''], shown = label_shown,
           content = ''Pay With Card'', on_click = []\<rparr>],
      pending = evs\<rparr>"

text \<open>
  Scenario 1 of the specification: one element carries the test id, and two elements share
  the visible text "Login".
\<close>

definition two_logins_page :: sim where
  "two_logins_page =
     \<lparr>url = login_url,
      elems =
        [\<lparr>selectors = [GetByText ''Login'' True], shown = True,
           content = ''Login'', on_click = []\<rparr>,
         \<lparr>selectors = [GetByTestId ''login-button'', GetByText ''Login'' True], shown = True,
           content = ''Login'', on_click = []\<rparr>],
      pending = []\<rparr>"

definition login_button_descriptor :: descriptor where
  "login_button_descriptor =
     \<lparr>testid = Some (GetByTestId ''login-button''), role_label = None,
      visible_text = Some (GetByText ''Login'' True), css_fallback = [], ordinal = None\<rparr>"

text \<open>
  A page on which the first four selectors of \<open>fallback_descriptor\<close> match nothing and
  the last one matches the second button.
\<close>

definition fallback_page :: sim where
  "fallback_page =
     \<lparr>url = login_url,
      elems =
        [\<lparr>selectors = [GetByText ''Login'' True, Css ''button''], shown = True,
           content = ''Login'', on_click = []\<rparr>,
         \<lparr>selectors = [GetByText ''Login'' True, Css ''button'', Css ''.primary''], shown = True,
           content = ''Login'', on_click = []\<rparr>],
      pending = []\<rparr>"

definition fallback_descriptor :: descriptor where
  "fallback_descriptor =
     \<lparr>testid = Some (GetByTestId ''login-button''),
      role_label = Some (GetByRole ''button'' (Some ''Sign in'')),
      visible_text = Some (GetByText ''Sign in'' True),
      css_fallback = [Css ''#login'', Css ''.primary''],
      ordinal = None\<rparr>"

text \<open>A store holding one page object, at reference 0, for page 7.\<close>

definition session :: "'w \<Rightarrow> (nat, 'w) state" where
  "session w = \<lparr>objects = [0 \<mapsto> \<lparr>page = 7\<rparr>], next_ref = 1, browser = w\<rparr>"

text \<open>An empty store, as at the start of the test.\<close>

definition fresh_store :: "'w \<Rightarrow> (nat, 'w) state" where
  "fresh_store w = \<lparr>objects = Map.empty, next_ref = 0, browser = w\<rparr>"

text \<open>A second store, holding another page object for the same page at reference 3.\<close>

definition other_session :: "'w \<Rightarrow> (nat, 'w) state" where
  "other_session w = \<lparr>objects = [3 \<mapsto> \<lparr>page = 7\<rparr>], next_ref = 4, browser = w\<rparr>"

text \<open>
  The post-condition of the booking step, read off one observation of the document: the
  first \<^verbatim>\<open>label\<close> element whose text matches \<^verbatim>\<open>/pay with/i\<close> exists and is visible.
\<close>

definition first_label_visible :: "('p, 'h, 'w) engine \<Rightarrow> 'p \<Rightarrow> 'w \<Rightarrow> bool" where
  "first_label_visible eng p w =
     (case query eng p (FilterHasText (Css ''label'') pay_with_re) w of
        [] \<Rightarrow> False
      | h # hs \<Rightarrow> holds eng Visible h w)"

section \<open>What the dashboard pattern matches\<close>

text \<open>
  The pattern \<^verbatim>\<open>/.*dashboard.*/\<close> matches exactly the strings that contain
  \<open>dashboard\<close>.
\<close>

lemma match_literal:
  "match_here False (literal l @ r) s \<longleftrightarrow> (\<exists>t. s = l @ t \<and> match_here False r t)"
proof (induction l arbitrary: s)
  case Nil
  then show ?case by (simp add: literal_def)
next
  case (Cons c l)
  then show ?case by (cases s) (auto simp: literal_def)
qed

lemma match_any: "match_here ic [Star Dot] s"
  by (induction s) simp_all

lemma match_star_suffix:
  "match_here ic (Star a # r) s \<Longrightarrow> \<exists>u t. s = u @ t \<and> match_here ic r t"
proof (induction s)
  case Nil
  then show ?case by simp
next
  case (Cons c s)
  then show ?case
  proof (cases "match_here ic r (c # s)")
    case True
    then have "c # s = [] @ (c # s) \<and> match_here ic r (c # s)" by simp
    then show ?thesis by blast
  next
    case False
    with Cons.prems have "match_here ic (Star a # r) s" by simp
    from Cons.IH [OF this] obtain u t where "s = u @ t" "match_here ic r t" by blast
    then have "c # s = (c # u) @ t \<and> match_here ic r t" by simp
    then show ?thesis by blast
  qed
qed

lemma search_suffix:
  "re_search ic r s \<longleftrightarrow> (\<exists>u t. s = u @ t \<and> match_here ic r t)"
proof (induction s)
  case Nil
  then show ?case by simp
next
  case (Cons c s)
  show ?case
  proof
    assume "re_search ic r (c # s)"
    then consider "match_here ic r (c # s)" | "re_search ic r s" by auto
    then show "\<exists>u t. c # s = u @ t \<and> match_here ic r t"
    proof cases
      case 1
      then have "c # s = [] @ (c # s) \<and> match_here ic r (c # s)" by simp
      then show ?thesis by blast
    next
      case 2
      with Cons.IH obtain u t where "s = u @ t" "match_here ic r t" by blast
      then have "c # s = (c # u) @ t \<and> match_here ic r t" by simp
      then show ?thesis by blast
    qed
  next
    assume "\<exists>u t. c # s = u @ t \<and> match_here ic r t"
    then obtain u t where ut: "c # s = u @ t" "match_here ic r t" by blast
    show "re_search ic r (c # s)"
    proof (cases u)
      case Nil
      with ut have "match_here ic r (c # s)" by simp
      then show ?thesis by simp
    next
      case (Cons c' u')
      with ut have "s = u' @ t" by simp
      with ut(2) Cons.IH show ?thesis by auto
    qed
  qed
qed

lemma dashboard_re_contains:
  "re_test dashboard_re s \<longleftrightarrow> (\<exists>a b. s = a @ ''dashboard'' @ b)"
proof
  assume "re_test dashboard_re s"
  then obtain u t where ut: "s = u @ t"
      "match_here False (Star Dot # literal ''dashboard'' @ [Star Dot]) t"
    by (auto simp: re_test_def dashboard_re_def search_suffix)
  from match_star_suffix [OF ut(2)] obtain v x where vx: "t = v @ x"
      "match_here False (literal ''dashboard'' @ [Star Dot]) x" by blast
  then obtain b where "x = ''dashboard'' @ b" by (auto simp: match_literal)
  with ut(1) vx(1) have "s = (u @ v) @ ''dashboard'' @ b" by simp
  then show "\<exists>a b. s = a @ ''dashboard'' @ b" by blast
next
  assume "\<exists>a b. s = a @ ''dashboard'' @ b"
  then obtain a b where s: "s = a @ ''dashboard'' @ b" by blast
  have "match_here False (literal ''dashboard'' @ [Star Dot]) (''dashboard'' @ b)"
    unfolding match_literal by (simp add: match_any)
  then have "match_here False (Star Dot # literal ''dashboard'' @ [Star Dot]) (''dashboard'' @ b)"
    by simp
  then show "re_test dashboard_re s"
    unfolding re_test_def dashboard_re_def s regex.sel search_suffix by blast
qed

section \<open>The page object runs its calls in order\<close>

text \<open>
  Each method is the run of its list of calls: it stops at the first call that rejects
  and surfaces that error, and returns \<^verbatim>\<open>this\<close> when all of them resolve. The test is
  the run of the four lists one after the other.
\<close>

lemma this_page_Some:
  "objects st this = Some obj \<Longrightarrow> await (this_page this) k st = k (page obj) st"
  by (simp add: await_def this_page_def)

lemma this_page_None:
  "objects st this = None \<Longrightarrow>
     await (this_page this) k st =
       (Inl (TypeError ''Cannot read properties of undefined (reading 'page')''), st)"
  by (simp add: await_def this_page_def)

lemma await_lib:
  "await (lib m) k st =
     (case m (browser st) of
        (Inl e, w') \<Rightarrow> (Inl e, st\<lparr>browser := w'\<rparr>)
      | (Inr x, w') \<Rightarrow> k x (st\<lparr>browser := w'\<rparr>))"
  by (simp add: await_def lib_def split: prod.splits sum.splits)

lemma goto_run_calls:
  assumes "objects st this = Some obj"
  shows "goto pw this st = finish this st (run_calls pw (page obj) 0 goto_calls (browser st))"
  using assms
  by (simp add: goto_def goto_calls_def login_url_def finish_def this_page_Some await_lib
      return_def split: prod.splits sum.splits)

lemma login_run_calls:
  assumes "objects st this = Some obj"
  shows "login pw this e p st =
    finish this st (run_calls pw (page obj) 0 (login_calls e p) (browser st))"
  using assms
  by (simp add: login_def login_calls_def finish_def this_page_Some await_lib return_def
      split: prod.splits sum.splits)

lemma searchRoute_run_calls:
  assumes "objects st this = Some obj"
  shows "searchRoute pw this a b c d e st =
    finish this st (run_calls pw (page obj) 0 (searchRoute_calls a b c d e) (browser st))"
  using assms
  by (simp add: searchRoute_def searchRoute_calls_def finish_def this_page_Some await_lib
      return_def split: prod.splits sum.splits)

lemma bookTrip_run_calls:
  assumes "objects st this = Some obj"
  shows "bookTrip pw this t st =
    finish this st (run_calls pw (page obj) 0 (bookTrip_calls t) (browser st))"
  using assms
  by (simp add: bookTrip_def bookTrip_calls_def finish_def this_page_Some await_lib return_def
      split: prod.splits sum.splits)

lemma run_step_run_calls:
  assumes "objects st this = Some obj"
  shows "run_step pw this s st =
    finish this st (run_calls pw (page obj) 0 (step_calls s) (browser st))"
  using assms
  by (cases s)
     (simp_all add: goto_run_calls login_run_calls searchRoute_run_calls bookTrip_run_calls)

lemma run_step_dangling:
  assumes "objects st this = None"
  shows "run_step pw this s st =
    (Inl (TypeError ''Cannot read properties of undefined (reading 'page')''), st)"
  using assms
  by (cases s)
     (simp_all add: goto_def login_def searchRoute_def bookTrip_def this_page_None)

lemma finish_frame:
  "objects (snd (finish this st r)) = objects st \<and> next_ref (snd (finish this st r)) = next_ref st"
  by (simp add: finish_def split: prod.splits sum.splits)

lemma run_step_frame:
  "objects (snd (run_step pw this s st)) = objects st \<and>
   next_ref (snd (run_step pw this s st)) = next_ref st"
proof (cases "objects st this")
  case None
  then show ?thesis by (simp add: run_step_dangling)
next
  case (Some obj)
  then show ?thesis by (simp add: run_step_run_calls finish_frame)
qed

lemma run_steps_frame:
  "objects (run_steps pw this ss st) = objects st \<and> next_ref (run_steps pw this ss st) = next_ref st"
  by (induction ss arbitrary: st) (simp_all add: run_step_frame)

lemma run_calls_index:
  "run_calls pw p i cs w = (Inl (k, e), w') \<Longrightarrow> i \<le> k \<and> k < i + length cs"
proof (induction cs arbitrary: i w)
  case Nil
  then show ?case by simp
next
  case (Cons c cs)
  show ?case
  proof (cases "exec_call pw p c w")
    case (Pair r w1)
    show ?thesis
    proof (cases r)
      case (Inl e1)
      with Pair Cons.prems show ?thesis by simp
    next
      case (Inr u)
      with Pair Cons.prems have "run_calls pw p (Suc i) cs w1 = (Inl (k, e), w')" by simp
      from Cons.IH [OF this] show ?thesis by simp
    qed
  qed
qed

lemma run_calls_result:
  "run_calls pw p i cs w = (r, w') \<Longrightarrow>
     r = Inr () \<or> (\<exists>k e. r = Inl (k, e) \<and> i \<le> k \<and> k < i + length cs)"
proof (cases r)
  case (Inl ke)
  assume run: "run_calls pw p i cs w = (r, w')"
  obtain k e where "ke = (k, e)" by (cases ke)
  with Inl run run_calls_index [of pw p i cs w k e w'] show ?thesis by simp
next
  case (Inr u)
  then show ?thesis by simp
qed

lemma run_calls_append:
  "run_calls pw p i (as @ bs) w =
     (case run_calls pw p i as w of
        (Inl x, w') \<Rightarrow> (Inl x, w')
      | (Inr _, w') \<Rightarrow> run_calls pw p (i + length as) bs w')"
  by (induction as arbitrary: i w) (auto split: prod.splits sum.splits)

lemma run_calls_fail_at:
  assumes "i < length cs"
    and "run_calls pw p k (take i cs) w = (Inr (), wi)"
    and "exec_call pw p (cs ! i) wi = (Inl err, w')"
  shows "run_calls pw p k cs w = (Inl (k + i, err), w')"
proof -
  have cs: "cs = take i cs @ cs ! i # drop (Suc i) cs"
    using assms(1) by (rule id_take_nth_drop)
  have len: "length (take i cs) = i"
    using assms(1) by simp
  have "run_calls pw p k (take i cs @ cs ! i # drop (Suc i) cs) w = (Inl (k + i, err), w')"
    unfolding run_calls_append using assms(2,3) len by simp
  with cs show ?thesis by simp
qed

lemma run_calls_last_ok:
  "run_calls pw p i (cs @ [c]) w = (Inr x, w') \<Longrightarrow>
     \<exists>w0. run_calls pw p i cs w = (Inr (), w0) \<and> exec_call pw p c w0 = (Inr (), w')"
  by (auto simp: run_calls_append split: prod.splits sum.splits)

lemma run_calls_shift:
  "run_calls pw p i cs w =
     (case run_calls pw p 0 cs w of
        (Inl (k, e), w') \<Rightarrow> (Inl (k + i, e), w')
      | (Inr u, w') \<Rightarrow> (Inr u, w'))"
proof (induction cs arbitrary: i w)
  case Nil
  then show ?case by simp
next
  case (Cons c cs)
  show ?case
    by (simp add: Cons.IH [of "Suc i"] Cons.IH [of "Suc 0"] split: prod.splits sum.splits)
qed

lemma step_as_finish:
  assumes "\<And>s. objects s = objects st \<Longrightarrow> f s = finish this s (run_calls pw p 0 cs (browser s))"
    and "objects st0 = objects st"
  shows "await f k st0 =
     (case run_calls pw p 0 cs (browser st0) of
        (Inl (i, e), w') \<Rightarrow> (Inl e, st0\<lparr>browser := w'\<rparr>)
      | (Inr _, w') \<Rightarrow> k this (st0\<lparr>browser := w'\<rparr>))"
  using assms by (simp add: await_def finish_def split: prod.splits sum.splits)

lemma booking_run_calls:
  "Shuttler_Booking pw pg st =
     (case run_calls pw pg 0 booking_calls (browser st) of
        (Inl (i, e), w') \<Rightarrow> (Inl e, (snd (new_ShuttlerSimplePage pg st))\<lparr>browser := w'\<rparr>)
      | (Inr _, w') \<Rightarrow> (Inr (), (snd (new_ShuttlerSimplePage pg st))\<lparr>browser := w'\<rparr>))"
proof -
  define this where "this = next_ref st"
  define st1 where "st1 = snd (new_ShuttlerSimplePage pg st)"
  have obj: "objects st1 this = Some \<lparr>page = pg\<rparr>" and br: "browser st1 = browser st"
    by (simp_all add: st1_def this_def new_ShuttlerSimplePage_def)
  have new: "new_ShuttlerSimplePage pg st = (this, st1)"
    by (simp add: st1_def this_def new_ShuttlerSimplePage_def)
  have g: "\<And>s. objects s = objects st1 \<Longrightarrow>
      goto pw this s = finish this s (run_calls pw pg 0 goto_calls (browser s))"
    using obj goto_run_calls [of _ this "\<lparr>page = pg\<rparr>" pw] by simp
  have l: "\<And>s a b. objects s = objects st1 \<Longrightarrow>
      login pw this a b s = finish this s (run_calls pw pg 0 (login_calls a b) (browser s))"
    using obj login_run_calls [of _ this "\<lparr>page = pg\<rparr>" pw] by simp
  have r: "\<And>s a b c d e. objects s = objects st1 \<Longrightarrow>
      searchRoute pw this a b c d e s =
        finish this s (run_calls pw pg 0 (searchRoute_calls a b c d e) (browser s))"
    using obj searchRoute_run_calls [of _ this "\<lparr>page = pg\<rparr>" pw] by simp
  have b: "\<And>s t. objects s = objects st1 \<Longrightarrow>
      bookTrip pw this t s = finish this s (run_calls pw pg 0 (bookTrip_calls t) (browser s))"
    using obj bookTrip_run_calls [of _ this "\<lparr>page = pg\<rparr>" pw] by simp
  have shift: "\<And>i cs w. i \<noteq> 0 \<Longrightarrow> run_calls pw pg i cs w =
     (case run_calls pw pg 0 cs w of
        (Inl (k, e), w') \<Rightarrow> (Inl (k + i, e), w')
      | (Inr u, w') \<Rightarrow> (Inr u, w'))"
    using run_calls_shift by fast
  show ?thesis
    unfolding Shuttler_Booking_def new booking_calls_def st1_def [symmetric]
    by (simp add: step_as_finish [where st = st1, OF g] step_as_finish [where st = st1, OF l]
        step_as_finish [where st = st1, OF r] step_as_finish [where st = st1, OF b]
        run_calls_append shift br return_def goto_calls_def
        split: prod.splits sum.splits)
qed

lemma booking_calls_nth:
  "booking_calls ! 0 = CGoto login_url"
  "booking_calls ! 4 = CToHaveURL dashboard_re (Some 30000)"
  "booking_calls ! 11 = CClick (GetByTestId ''find-trips-btn'')"
  "length booking_calls = 15"
  by (simp_all add: booking_calls_def goto_calls_def login_calls_def searchRoute_calls_def
      bookTrip_calls_def)

section \<open>Traces of the recording library\<close>

lemma exec_call_traced:
  "exec_call (traced pw) p c (w, tr) =
     (case exec_call pw p c w of (r, w') \<Rightarrow> (r, (w', tr @ [(c, \<not> isl r)])))"
  by (cases c) (simp_all add: traced_def logged_def)

lemma run_calls_traced:
  "run_calls (traced pw) p i cs (w, tr) =
     (case run_calls pw p i cs w of (r, w') \<Rightarrow> (r, (w', tr @ calls_trace r i cs)))"
proof (induction cs arbitrary: i w tr)
  case Nil
  then show ?case by simp
next
  case (Cons c cs)
  show ?case
  proof (cases "exec_call pw p c w")
    case (Pair r w1)
    show ?thesis
    proof (cases r)
      case (Inl e1)
      with Pair show ?thesis by (simp add: exec_call_traced)
    next
      case (Inr u)
      obtain r2 w2 where rest: "run_calls pw p (Suc i) cs w1 = (r2, w2)"
        by (cases "run_calls pw p (Suc i) cs w1")
      have shift: "calls_trace r2 i (c # cs) = (c, True) # calls_trace r2 (Suc i) cs"
      proof (cases r2)
        case (Inl ke)
        obtain k e where ke: "ke = (k, e)" by (cases ke)
        from rest Inl ke have "Suc i \<le> k" using run_calls_index by fastforce
        then obtain j where "k - i = Suc j" "k - Suc i = j" by (cases "k - i") auto
        with Inl ke show ?thesis by simp
      next
        case (Inr u2)
        then show ?thesis by simp
      qed
      from Pair Inr rest shift show ?thesis
        by (simp add: exec_call_traced Cons.IH)
    qed
  qed
qed

lemma calls_trace_order:
  assumes "r = Inr () \<or> (\<exists>k e. r = Inl (k, e) \<and> i \<le> k \<and> k < i + length cs)"
  shows "map fst (calls_trace r i cs) = take (length (calls_trace r i cs)) cs"
  using assms by (auto simp: comp_def take_Suc_conv_app_nth min_def)

lemma calls_trace_resolved:
  assumes "r = Inr () \<or> (\<exists>k e. r = Inl (k, e) \<and> i \<le> k \<and> k < i + length cs)"
    and "Suc j < length (calls_trace r i cs)"
  shows "snd (calls_trace r i cs ! j)"
  using assms by (auto simp: nth_append min_def)

lemma booking_trace:
  assumes "browser st = (w, tr0)"
  shows "snd (browser (snd (Shuttler_Booking (traced pw) pg st))) =
     tr0 @ calls_trace (fst (run_calls pw pg 0 booking_calls w)) 0 booking_calls"
  using assms
  by (simp add: booking_run_calls run_calls_traced split: prod.splits sum.splits)

section \<open>Lemmas about the automation core\<close>

lemma pick_single: "pick ord [h] = Some h"
  by (simp add: pick_def)

lemma poll_strategy_now:
  "pick ord (query eng p s w) = Some h \<Longrightarrow> poll_strategy eng p ord s n w = (Some h, n, w)"
  by (cases n) simp_all

lemma try_strategies_first:
  "pick ord (query eng p s w) = Some h \<Longrightarrow> try_strategies eng p ord (s # ss) n w = (Some h, n, w)"
  by (simp add: poll_strategy_now)

lemma poll_strategy_first:
  assumes "k \<le> n"
    and "pick ord (query eng p s ((elapse eng ^^ k) w)) = Some h"
    and "\<forall>j<k. pick ord (query eng p s ((elapse eng ^^ j) w)) = None"
  shows "poll_strategy eng p ord s n w = (Some h, n - k, (elapse eng ^^ k) w)"
  using assms
proof (induction k arbitrary: n w)
  case 0
  then show ?case by (simp add: poll_strategy_now)
next
  case (Suc k)
  from Suc.prems(1) obtain n' where n: "n = Suc n'" "k \<le> n'" by (cases n) auto
  from Suc.prems(3) have now: "pick ord (query eng p s w) = None"
    by (metis funpow_0 zero_less_Suc)
  have later: "\<forall>j<k. pick ord (query eng p s ((elapse eng ^^ j) (elapse eng w))) = None"
  proof (intro allI impI)
    fix j assume "j < k"
    then have "Suc j < Suc k" by simp
    with Suc.prems(3) have "pick ord (query eng p s ((elapse eng ^^ Suc j) w)) = None" by blast
    then show "pick ord (query eng p s ((elapse eng ^^ j) (elapse eng w))) = None"
      by (simp add: funpow_swap1)
  qed
  have "pick ord (query eng p s ((elapse eng ^^ k) (elapse eng w))) = Some h"
    using Suc.prems(2) by (simp add: funpow_swap1)
  from Suc.IH [OF n(2) this later] now n show ?case
    by (simp add: funpow_swap1)
qed

lemma poll_strategy_none:
  assumes "\<forall>j\<le>n. pick ord (query eng p s ((elapse eng ^^ j) w)) = None"
  shows "poll_strategy eng p ord s n w = (None, 0, (elapse eng ^^ n) w)"
  using assms
proof (induction n arbitrary: w)
  case 0
  then show ?case by simp
next
  case (Suc n)
  from Suc.prems have now: "pick ord (query eng p s w) = None"
    by (metis funpow_0 le0)
  have "\<forall>j\<le>n. pick ord (query eng p s ((elapse eng ^^ j) (elapse eng w))) = None"
  proof (intro allI impI)
    fix j assume "j \<le> n"
    then have "Suc j \<le> Suc n" by simp
    with Suc.prems have "pick ord (query eng p s ((elapse eng ^^ Suc j) w)) = None" by blast
    then show "pick ord (query eng p s ((elapse eng ^^ j) (elapse eng w))) = None"
      by (simp add: funpow_swap1)
  qed
  from Suc.IH [OF this] now show ?case by (simp add: funpow_swap1)
qed

lemma try_strategies_zero:
  "try_strategies eng p ord ss 0 w = (locate_now eng p ord ss w, 0, w)"
  by (induction ss) (simp_all split: option.splits)

lemma locate_now_iff:
  "locate_now eng p ord ss w = Some h \<longleftrightarrow>
     (\<exists>pre t post. ss = pre @ t # post
        \<and> (\<forall>s'\<in>set pre. pick ord (query eng p s' w) = None)
        \<and> pick ord (query eng p t w) = Some h)"
proof (induction ss)
  case Nil
  then show ?case by simp
next
  case (Cons s ss)
  show ?case
  proof (cases "pick ord (query eng p s w)")
    case None
    have "(\<exists>pre t post. s # ss = pre @ t # post
            \<and> (\<forall>s'\<in>set pre. pick ord (query eng p s' w) = None)
            \<and> pick ord (query eng p t w) = Some h)
        \<longleftrightarrow> (\<exists>pre t post. ss = pre @ t # post
            \<and> (\<forall>s'\<in>set pre. pick ord (query eng p s' w) = None)
            \<and> pick ord (query eng p t w) = Some h)"
    proof
      assume "\<exists>pre t post. s # ss = pre @ t # post
            \<and> (\<forall>s'\<in>set pre. pick ord (query eng p s' w) = None)
            \<and> pick ord (query eng p t w) = Some h"
      then obtain pre t post where a: "s # ss = pre @ t # post"
          "\<forall>s'\<in>set pre. pick ord (query eng p s' w) = None"
          "pick ord (query eng p t w) = Some h" by blast
      from a(1,3) None obtain pre' where "pre = s # pre'" "ss = pre' @ t # post"
        by (cases pre) auto
      with a show "\<exists>pre t post. ss = pre @ t # post
            \<and> (\<forall>s'\<in>set pre. pick ord (query eng p s' w) = None)
            \<and> pick ord (query eng p t w) = Some h" by auto
    next
      assume "\<exists>pre t post. ss = pre @ t # post
            \<and> (\<forall>s'\<in>set pre. pick ord (query eng p s' w) = None)
            \<and> pick ord (query eng p t w) = Some h"
      then obtain pre t post where a: "ss = pre @ t # post"
          "\<forall>s'\<in>set pre. pick ord (query eng p s' w) = None"
          "pick ord (query eng p t w) = Some h" by blast
      with None have "s # ss = (s # pre) @ t # post
            \<and> (\<forall>s'\<in>set (s # pre). pick ord (query eng p s' w) = None)
            \<and> pick ord (query eng p t w) = Some h" by simp
      then show "\<exists>pre t post. s # ss = pre @ t # post
            \<and> (\<forall>s'\<in>set pre. pick ord (query eng p s' w) = None)
            \<and> pick ord (query eng p t w) = Some h" by blast
    qed
    with None Cons.IH show ?thesis by simp
  next
    case (Some h')
    have "(\<exists>pre t post. s # ss = pre @ t # post
            \<and> (\<forall>s'\<in>set pre. pick ord (query eng p s' w) = None)
            \<and> pick ord (query eng p t w) = Some h) \<longleftrightarrow> h' = h"
    proof
      assume "\<exists>pre t post. s # ss = pre @ t # post
            \<and> (\<forall>s'\<in>set pre. pick ord (query eng p s' w) = None)
            \<and> pick ord (query eng p t w) = Some h"
      then obtain pre t post where a: "s # ss = pre @ t # post"
          "\<forall>s'\<in>set pre. pick ord (query eng p s' w) = None"
          "pick ord (query eng p t w) = Some h" by blast
      show "h' = h"
      proof (cases pre)
        case Nil
        with a Some show ?thesis by simp
      next
        case (Cons x xs)
        with a(1) have "s \<in> set pre" by simp
        with a(2) Some show ?thesis by simp
      qed
    next
      assume "h' = h"
      with Some have "s # ss = [] @ s # ss
            \<and> (\<forall>s'\<in>set []. pick ord (query eng p s' w) = None)
            \<and> pick ord (query eng p s w) = Some h" by simp
      then show "\<exists>pre t post. s # ss = pre @ t # post
            \<and> (\<forall>s'\<in>set pre. pick ord (query eng p s' w) = None)
            \<and> pick ord (query eng p t w) = Some h" by blast
    qed
    with Some show ?thesis by simp
  qed
qed

lemma locate_now_none:
  "\<forall>t\<in>set ss. pick ord (query eng p t w) = None \<Longrightarrow> locate_now eng p ord ss w = None"
  by (induction ss) simp_all

lemma resolve_polled:
  assumes "attempts d = s # rest" and "k \<le> n"
    and "pick (ordinal d) (query eng p s ((elapse eng ^^ k) w)) = Some h"
    and "\<forall>j<k. pick (ordinal d) (query eng p s ((elapse eng ^^ j) w)) = None"
  shows "resolve eng p d n w = (Inr (h, n - k), (elapse eng ^^ k) w)"
proof -
  have "poll_strategy eng p (ordinal d) s n w = (Some h, n - k, (elapse eng ^^ k) w)"
    using assms(2-4) by (rule poll_strategy_first)
  then show ?thesis by (simp add: resolve_def assms(1))
qed

lemma resolve_exhausted:
  assumes "attempts d = s # rest"
    and "\<forall>j\<le>n. pick (ordinal d) (query eng p s ((elapse eng ^^ j) w)) = None"
  shows "try_strategies eng p (ordinal d) (attempts d) n w =
    (locate_now eng p (ordinal d) rest ((elapse eng ^^ n) w), 0, (elapse eng ^^ n) w)"
proof -
  have "poll_strategy eng p (ordinal d) s n w = (None, 0, (elapse eng ^^ n) w)"
    using assms(2) by (rule poll_strategy_none)
  then show ?thesis by (simp add: assms(1) try_strategies_zero)
qed

lemma resolve_fallback:
  assumes "attempts d = s # pre @ t # post"
    and "\<forall>j\<le>n. pick (ordinal d) (query eng p s ((elapse eng ^^ j) w)) = None"
    and "\<forall>s'\<in>set pre. pick (ordinal d) (query eng p s' ((elapse eng ^^ n) w)) = None"
    and "pick (ordinal d) (query eng p t ((elapse eng ^^ n) w)) = Some h"
  shows "resolve eng p d n w = (Inr (h, 0), (elapse eng ^^ n) w)"
proof -
  have "\<exists>pre' t' post'. pre @ t # post = pre' @ t' # post'
      \<and> (\<forall>s'\<in>set pre'. pick (ordinal d) (query eng p s' ((elapse eng ^^ n) w)) = None)
      \<and> pick (ordinal d) (query eng p t' ((elapse eng ^^ n) w)) = Some h"
  proof (intro exI conjI)
    show "pre @ t # post = pre @ t # post" by (rule refl)
    show "\<forall>s'\<in>set pre. pick (ordinal d) (query eng p s' ((elapse eng ^^ n) w)) = None"
      by (rule assms(3))
    show "pick (ordinal d) (query eng p t ((elapse eng ^^ n) w)) = Some h"
      by (rule assms(4))
  qed
  then have "locate_now eng p (ordinal d) (pre @ t # post) ((elapse eng ^^ n) w) = Some h"
    by (rule iffD2 [OF locate_now_iff])
  with resolve_exhausted [OF assms(1,2)] show ?thesis by (simp add: resolve_def)
qed

lemma resolve_fails:
  assumes "attempts d = s # rest"
    and "\<forall>j\<le>n. pick (ordinal d) (query eng p s ((elapse eng ^^ j) w)) = None"
    and "\<forall>t\<in>set rest. pick (ordinal d) (query eng p t ((elapse eng ^^ n) w)) = None"
  shows "resolve eng p d n w =
    (Inl (ResolutionError (failure_kind eng p (attempts d) n ((elapse eng ^^ n) w)) (attempts d)),
     (elapse eng ^^ n) w)"
proof -
  have "locate_now eng p (ordinal d) rest ((elapse eng ^^ n) w) = None"
    using assms(3) by (rule locate_now_none)
  with resolve_exhausted [OF assms(1,2)] show ?thesis by (simp add: resolve_def)
qed

lemma poll_strategy_idle:
  "elapse eng w = w \<Longrightarrow> pick ord (query eng p s w) = None \<Longrightarrow>
     poll_strategy eng p ord s n w = (None, 0, w)"
  by (induction n) simp_all

lemma act_now:
  "first_failing eng h w = None \<Longrightarrow> act eng h a n w = (Inr (), perform eng h a w)"
  by (cases n) simp_all

lemma act_idle:
  "elapse eng w = w \<Longrightarrow> first_failing eng h w = Some c \<Longrightarrow>
     act eng h a n w = (Inl (ActionError (NotActionable (reason c))), w)"
  by (induction n) simp_all

lemma act_times_out:
  assumes "\<forall>k\<le>n. first_failing eng h ((elapse eng ^^ k) w) \<noteq> None"
  shows "\<exists>c. first_failing eng h ((elapse eng ^^ n) w) = Some c
           \<and> act eng h a n w = (Inl (ActionError (NotActionable (reason c))), (elapse eng ^^ n) w)"
  using assms
proof (induction n arbitrary: w)
  case 0
  then show ?case by auto
next
  case (Suc n)
  from Suc.prems have now: "first_failing eng h w \<noteq> None"
    by (metis funpow_0 le0)
  have later: "\<forall>k\<le>n. first_failing eng h ((elapse eng ^^ k) (elapse eng w)) \<noteq> None"
  proof (intro allI impI)
    fix k assume "k \<le> n"
    then have "Suc k \<le> Suc n" by simp
    with Suc.prems have "first_failing eng h ((elapse eng ^^ Suc k) w) \<noteq> None" by blast
    then show "first_failing eng h ((elapse eng ^^ k) (elapse eng w)) \<noteq> None"
      by (simp add: funpow_swap1)
  qed
  from Suc.IH [OF later] obtain c where
    c: "first_failing eng h ((elapse eng ^^ n) (elapse eng w)) = Some c"
       "act eng h a n (elapse eng w) =
          (Inl (ActionError (NotActionable (reason c))), (elapse eng ^^ n) (elapse eng w))"
    by blast
  from now obtain c0 where "first_failing eng h w = Some c0" by auto
  then have "act eng h a (Suc n) w = act eng h a n (elapse eng w)" by simp
  with c show ?case by (simp add: funpow_swap1)
qed

lemma interact_ready:
  assumes "attempts (descriptor_of l) = [s]" and "query eng p s w = [h]"
    and "first_failing eng h w = None"
  shows "interact eng cfg p l a w = (Inr (), perform eng h a w)"
  using assms
  by (simp add: interact_def resolve_def poll_strategy_now pick_single act_now)

lemma interact_stuck:
  assumes "attempts (descriptor_of l) = [s]" and "query eng p s w = [h]"
    and "elapse eng w = w" and "first_failing eng h w = Some c"
  shows "interact eng cfg p l a w = (Inl (ActionError (NotActionable (reason c))), w)"
  using assms
  by (simp add: interact_def resolve_def poll_strategy_now pick_single act_idle)

lemma interact_missing:
  assumes "attempts (descriptor_of l) = [s]" and "query eng p s w = []"
    and "elapse eng w = w"
  shows "interact eng cfg p l a w =
    (Inl (ResolutionError
       (if polls cfg (action_timeout cfg) = 0 then NotFound else Timeout) [s]), w)"
  using assms
  by (simp add: interact_def resolve_def poll_strategy_idle pick_def failure_kind_def)

lemma pay_with_label_descriptor:
  "attempts (descriptor_of pay_with_label) = [FilterHasText (Css ''label'') pay_with_re]"
  "ordinal (descriptor_of pay_with_label) = Some 0"
  by (simp_all add: pay_with_label_def attempts_def no_strategy_def)

lemma core_fields:
  "page_goto (core eng cfg) = navigate eng"
  "locator_fill (core eng cfg) p l v = interact eng cfg p l (Fill v)"
  "locator_click (core eng cfg) p l = interact eng cfg p l Click"
  "expect_toHaveURL (core eng cfg) p r t = await_gate eng p (UrlMatches r) (gate_budget cfg t)"
  "expect_toBeVisible (core eng cfg) p l t = await_gate eng p (ElementVisible l) (gate_budget cfg t)"
  by (simp_all add: core_def)

lemma gate_success:
  "await_gate eng p c n w = (Inr x, w') \<Longrightarrow> satisfied eng p c w'"
  by (induction n arbitrary: w) (auto split: if_splits)

lemma gate_result:
  "(\<exists>w'. await_gate eng p c n w = (Inr (), w')) \<longleftrightarrow>
     (\<exists>k\<le>n. satisfied eng p c ((elapse eng ^^ k) w))"
proof (induction n arbitrary: w)
  case 0
  then show ?case by auto
next
  case (Suc n)
  show ?case
  proof (cases "satisfied eng p c w")
    case True
    then have "satisfied eng p c ((elapse eng ^^ 0) w)" by simp
    then have "\<exists>k\<le>Suc n. satisfied eng p c ((elapse eng ^^ k) w)" by blast
    with True show ?thesis by simp
  next
    case False
    have "(\<exists>k\<le>Suc n. satisfied eng p c ((elapse eng ^^ k) w)) \<longleftrightarrow>
          (\<exists>k\<le>n. satisfied eng p c ((elapse eng ^^ k) (elapse eng w)))"
    proof
      assume "\<exists>k\<le>Suc n. satisfied eng p c ((elapse eng ^^ k) w)"
      then obtain k where k: "k \<le> Suc n" "satisfied eng p c ((elapse eng ^^ k) w)" by blast
      with False obtain j where "k = Suc j" by (cases k) auto
      with k show "\<exists>k\<le>n. satisfied eng p c ((elapse eng ^^ k) (elapse eng w))"
        by (auto simp: funpow_swap1)
    next
      assume "\<exists>k\<le>n. satisfied eng p c ((elapse eng ^^ k) (elapse eng w))"
      then obtain k where "k \<le> n" "satisfied eng p c ((elapse eng ^^ k) (elapse eng w))" by blast
      then have "Suc k \<le> Suc n \<and> satisfied eng p c ((elapse eng ^^ Suc k) w)"
        by (simp add: funpow_swap1)
      then show "\<exists>k\<le>Suc n. satisfied eng p c ((elapse eng ^^ k) w)" by blast
    qed
    with False Suc.IH [of "elapse eng w"] show ?thesis by simp
  qed
qed

lemma satisfied_pay_with_label:
  "satisfied eng p (ElementVisible pay_with_label) w = first_label_visible eng p w"
  by (simp add: pay_with_label_descriptor first_label_visible_def pick_def
      split: list.splits)

lemma await_gate_numeral:
  "await_gate eng p c (numeral k) w =
     (if satisfied eng p c w then (Inr (), w)
      else await_gate eng p c (pred_numeral k) (elapse eng w))"
  by (simp add: numeral_eq_Suc)

lemma funpow_idle: "f x = x \<Longrightarrow> (f ^^ k) x = x"
  by (induction k) simp_all

section \<open>Runs on the simulated site\<close>

lemma sim_fields:
  "navigate sim_engine p u w = (Inr (), w\<lparr>url := u\<rparr>)"
  "location sim_engine p w = url w"
  "query sim_engine = sim_query"
  "holds sim_engine = sim_holds"
  "perform sim_engine = sim_perform"
  "elapse sim_engine = sim_elapse"
  by (simp_all add: sim_engine_def)

lemma login_page_query:
  "sim_query p (GetByRole ''textbox'' (Some ''Email Address'')) (login_page b e pw u evs) = [0]"
  "sim_query p (GetByRole ''textbox'' (Some ''Password Login with OTP'')) (login_page b e pw u evs) = [1]"
  "sim_query p login_button (login_page b e pw u evs) = [2]"
  "sim_query p (GetByRole ''textbox'' (Some ''Pick up location'')) (login_page b e pw u evs) = []"
  by (simp_all add: sim_query_def login_page_def login_button_def upt_rec)

lemma login_page_ready:
  "first_failing sim_engine 0 (login_page b e pw u evs) = None"
  "first_failing sim_engine (Suc 0) (login_page b e pw u evs) = None"
  "first_failing sim_engine 2 (login_page True e pw u evs) = None"
  "first_failing sim_engine 2 (login_page False e pw u evs) = Some Visible"
  by (simp_all add: first_failing_def preconditions_def sim_fields sim_holds_def login_page_def)

lemma login_page_perform:
  "sim_perform 0 (Fill v) (login_page b e pw u evs) = login_page b v pw u evs"
  "sim_perform (Suc 0) (Fill v) (login_page b e pw u evs) = login_page b e v u evs"
  "sim_perform 2 Click (login_page b e pw u evs) =
     login_page b e pw u (evs @ [(2, Redirect dashboard_url)])"
  by (simp_all add: sim_perform_def login_page_def)

lemma login_page_elapse:
  "sim_elapse (login_page b e pw u []) = login_page b e pw u []"
  "sim_elapse (login_page b e pw u [(2, Redirect d)]) = login_page b e pw u [(Suc 0, Redirect d)]"
  "sim_elapse (login_page b e pw u [(Suc 0, Redirect d)]) = login_page b e pw d []"
  by (simp_all add: sim_elapse_def login_page_def)

lemma login_page_url: "url (login_page b e pw u evs) = u"
  by (simp add: login_page_def)

lemma dashboard_url_matches: "re_test dashboard_re dashboard_url"
  by code_simp

lemma login_url_no_match: "\<not> re_test dashboard_re login_url"
  by code_simp

lemma login_button_attempts: "attempts (descriptor_of login_button) = [login_button]"
  by (simp add: login_button_def attempts_def no_strategy_def)

lemma sim_fill_email:
  "locator_fill (core sim_engine sim_cfg) p (GetByRole ''textbox'' (Some ''Email Address'')) v
     (login_page b e pw u evs) = (Inr (), login_page b v pw u evs)"
proof -
  have "interact sim_engine sim_cfg p (GetByRole ''textbox'' (Some ''Email Address'')) (Fill v)
      (login_page b e pw u evs) = (Inr (), perform sim_engine 0 (Fill v) (login_page b e pw u evs))"
    by (rule interact_ready [where s = "GetByRole ''textbox'' (Some ''Email Address'')"])
       (simp_all add: attempts_def no_strategy_def sim_fields login_page_query login_page_ready)
  then show ?thesis by (simp add: core_fields sim_fields login_page_perform)
qed

lemma sim_fill_password:
  "locator_fill (core sim_engine sim_cfg) p (GetByRole ''textbox'' (Some ''Password Login with OTP'')) v
     (login_page b e pw u evs) = (Inr (), login_page b e v u evs)"
proof -
  have "interact sim_engine sim_cfg p (GetByRole ''textbox'' (Some ''Password Login with OTP''))
      (Fill v) (login_page b e pw u evs) =
        (Inr (), perform sim_engine (Suc 0) (Fill v) (login_page b e pw u evs))"
    by (rule interact_ready [where s = "GetByRole ''textbox'' (Some ''Password Login with OTP'')"])
       (simp_all add: attempts_def no_strategy_def sim_fields login_page_query login_page_ready)
  then show ?thesis by (simp add: core_fields sim_fields login_page_perform)
qed

lemma sim_click_login:
  "locator_click (core sim_engine sim_cfg) p login_button (login_page True e pw u evs) =
     (Inr (), login_page True e pw u (evs @ [(2, Redirect dashboard_url)]))"
proof -
  have "interact sim_engine sim_cfg p login_button Click (login_page True e pw u evs) =
      (Inr (), perform sim_engine 2 Click (login_page True e pw u evs))"
    by (rule interact_ready [where s = login_button])
       (simp_all add: login_button_attempts sim_fields login_page_query login_page_ready)
  then show ?thesis by (simp add: core_fields sim_fields login_page_perform)
qed

lemma sim_click_hidden:
  "locator_click (core sim_engine sim_cfg) p login_button (login_page False e pw u []) =
     (Inl (ActionError (NotActionable ''not visible'')), login_page False e pw u [])"
proof -
  have "interact sim_engine sim_cfg p login_button Click (login_page False e pw u []) =
      (Inl (ActionError (NotActionable (reason Visible))), login_page False e pw u [])"
    by (rule interact_stuck [where s = login_button and h = 2])
       (simp_all add: login_button_attempts sim_fields login_page_query login_page_ready
          login_page_elapse)
  then show ?thesis by (simp add: core_fields)
qed

lemma sim_gate_dashboard:
  "expect_toHaveURL (core sim_engine sim_cfg) p dashboard_re (Some 30000)
     (login_page b e pw login_url [(2, Redirect dashboard_url)]) =
     (Inr (), login_page b e pw dashboard_url [])"
  by (simp add: core_fields gate_budget_def polls_def sim_cfg_def await_gate_numeral sim_fields
      login_page_url login_page_elapse dashboard_url_matches login_url_no_match)

lemma sim_fill_pickup:
  "locator_fill (core sim_engine sim_cfg) p (GetByRole ''textbox'' (Some ''Pick up location'')) v
     (login_page b e pw u []) =
     (Inl (ResolutionError Timeout [GetByRole ''textbox'' (Some ''Pick up location'')]),
      login_page b e pw u [])"
proof -
  have "interact sim_engine sim_cfg p (GetByRole ''textbox'' (Some ''Pick up location'')) (Fill v)
      (login_page b e pw u []) =
      (Inl (ResolutionError
         (if polls sim_cfg (action_timeout sim_cfg) = 0 then NotFound else Timeout)
         [GetByRole ''textbox'' (Some ''Pick up location'')]), login_page b e pw u [])"
    by (rule interact_missing)
       (simp_all add: attempts_def no_strategy_def sim_fields login_page_query login_page_elapse)
  then show ?thesis by (simp add: core_fields polls_def sim_cfg_def)
qed

lemma session_fields:
  "objects (session w) 0 = Some \<lparr>page = 7\<rparr>"
  "browser (session w) = w"
  "(session w)\<lparr>browser := w'\<rparr> = session w'"
  by (simp_all add: session_def)

lemma sim_login_calls_ok:
  "run_calls (core sim_engine sim_cfg) p 0 (login_calls a b) (login_page True e pw login_url []) =
     (Inr (), login_page True a b dashboard_url [])"
  by (simp add: login_calls_def sim_fill_email sim_fill_password sim_click_login sim_gate_dashboard)

lemma sim_login_calls_hidden:
  "run_calls (core sim_engine sim_cfg) p 0 (login_calls a b) (login_page False e pw u []) =
     (Inl (2, ActionError (NotActionable ''not visible'')), login_page False a b u [])"
  by (simp add: login_calls_def sim_fill_email sim_fill_password sim_click_hidden)

lemma sim_login_ok:
  "login (core sim_engine sim_cfg) 0 a b (session (login_page True e pw login_url [])) =
     (Inr 0, session (login_page True a b dashboard_url []))"
  by (simp add: login_run_calls [where obj = "\<lparr>page = 7\<rparr>"] session_fields sim_login_calls_ok
      finish_def)

lemma sim_login_hidden:
  "login (core sim_engine sim_cfg) 0 a b (session (login_page False e pw u [])) =
     (Inl (ActionError (NotActionable ''not visible'')), session (login_page False a b u []))"
  by (simp add: login_run_calls [where obj = "\<lparr>page = 7\<rparr>"] session_fields
      sim_login_calls_hidden finish_def)

lemma two_logins_query:
  "sim_query p (GetByTestId ''login-button'') two_logins_page = [1]"
  "sim_query p (GetByText ''Login'' True) two_logins_page = [0, 1]"
  by (simp_all add: sim_query_def two_logins_page_def upt_rec)

lemma trips_page_query:
  "sim_query p (GetByText ''FST20006:00 AM'' False) (trips_page b evs) = [0]"
  "sim_query p (GetByRole ''button'' (Some book_trip_name)) (trips_page b evs) = [1]"
  "sim_query p (FilterHasText (Css ''label'') pay_with_re) (trips_page b evs) = [2]"
proof -
  have "re_test pay_with_re ''Pay With Card''" by code_simp
  then show "sim_query p (FilterHasText (Css ''label'') pay_with_re) (trips_page b evs) = [2]"
    by (simp add: sim_query_def trips_page_def upt_rec)
qed (simp_all add: sim_query_def trips_page_def upt_rec)

lemma trips_page_ready:
  "first_failing sim_engine 0 (trips_page b evs) = None"
  "first_failing sim_engine (Suc 0) (trips_page b evs) = None"
  by (simp_all add: first_failing_def preconditions_def sim_fields sim_holds_def trips_page_def)

lemma trips_page_perform:
  "sim_perform 0 Click (trips_page b evs) = trips_page b evs"
  "sim_perform (Suc 0) Click (trips_page b evs) = trips_page b (evs @ [(1, Reveal 2)])"
  by (simp_all add: sim_perform_def trips_page_def)

lemma trips_page_elapse:
  "sim_elapse (trips_page b [(Suc 0, Reveal 2)]) = trips_page True []"
  by (simp add: sim_elapse_def trips_page_def)

lemma trips_label:
  "first_label_visible sim_engine p (trips_page b evs) = b"
  by (simp add: first_label_visible_def sim_fields trips_page_query)
     (simp add: sim_holds_def trips_page_def)

lemma sim_click_trip:
  "locator_click (core sim_engine sim_cfg) p (GetByText ''FST20006:00 AM'' False) (trips_page b evs)
     = (Inr (), trips_page b evs)"
proof -
  have "interact sim_engine sim_cfg p (GetByText ''FST20006:00 AM'' False) Click (trips_page b evs)
      = (Inr (), perform sim_engine 0 Click (trips_page b evs))"
    by (rule interact_ready [where s = "GetByText ''FST20006:00 AM'' False"])
       (simp_all add: attempts_def no_strategy_def sim_fields trips_page_query trips_page_ready)
  then show ?thesis by (simp add: core_fields sim_fields trips_page_perform)
qed

lemma sim_click_book:
  "locator_click (core sim_engine sim_cfg) p (GetByRole ''button'' (Some book_trip_name))
     (trips_page b evs) = (Inr (), trips_page b (evs @ [(1, Reveal 2)]))"
proof -
  have "interact sim_engine sim_cfg p (GetByRole ''button'' (Some book_trip_name)) Click
      (trips_page b evs) = (Inr (), perform sim_engine (Suc 0) Click (trips_page b evs))"
    by (rule interact_ready [where s = "GetByRole ''button'' (Some book_trip_name)"])
       (simp_all add: attempts_def no_strategy_def sim_fields trips_page_query trips_page_ready)
  then show ?thesis by (simp add: core_fields sim_fields trips_page_perform)
qed

lemma sim_goto:
  "page_goto (core sim_engine sim_cfg) p u (login_page b e pw u0 evs) =
     (Inr (), login_page b e pw u evs)"
  by (simp add: core_fields sim_fields login_page_def)

lemma sim_booking_calls:
  "run_calls (core sim_engine sim_cfg) 7 0 booking_calls (login_page True [] [] login_url []) =
     (Inl (5, ResolutionError Timeout [GetByRole ''textbox'' (Some ''Pick up location'')]),
      login_page True (email user) (password user) dashboard_url [])"
proof -
  have five: "Suc (Suc (Suc (Suc (Suc 0)))) = 5" by simp
  show ?thesis
    by (simp add: booking_calls_def goto_calls_def login_calls_def searchRoute_calls_def sim_goto
        sim_fill_email sim_fill_password sim_click_login sim_gate_dashboard sim_fill_pickup five)
qed

lemma take_booking_calls:
  "take 5 booking_calls = goto_calls @ login_calls (email user) (password user)"
  "booking_calls ! 5 = CFill (GetByRole ''textbox'' (Some ''Pick up location'')) (pickup route)"
  by (simp_all add: booking_calls_def goto_calls_def login_calls_def searchRoute_calls_def)

lemma sim_goto_login_calls:
  "run_calls (core sim_engine sim_cfg) 7 0 (goto_calls @ login_calls a b)
     (login_page True [] [] login_url []) = (Inr (), login_page True a b dashboard_url [])"
  by (simp add: goto_calls_def login_calls_def sim_goto sim_fill_email sim_fill_password
      sim_click_login sim_gate_dashboard)

lemma fallback_page_query:
  "sim_query p (GetByTestId ''login-button'') fallback_page = []"
  "sim_query p (GetByRole ''button'' (Some ''Sign in'')) fallback_page = []"
  "sim_query p (GetByText ''Sign in'' True) fallback_page = []"
  "sim_query p (Css ''#login'') fallback_page = []"
  "sim_query p (Css ''.primary'') fallback_page = [1]"
  by (simp_all add: sim_query_def fallback_page_def upt_rec)

lemma fallback_page_idle: "(sim_elapse ^^ k) fallback_page = fallback_page"
  by (rule funpow_idle) (simp add: sim_elapse_def fallback_page_def)

section \<open>The claims\<close>

text \<open>
  C1. The assertion gate after the login step never returns success before the URL has
  matched \<^verbatim>\<open>/.*dashboard.*/\<close>: whenever login completes successfully, the gate's
  last observation, which is the browser state login returns in, has a location that
  matches the pattern. The witness runs login on the simulated login page, where the
  redirect arrives two polling intervals after the click.
\<close>

theorem login_success_saw_dashboard:
  assumes "login (core eng cfg) this e p st = (Inr r, st')"
  shows "\<exists>obj. objects st this = Some obj
           \<and> re_test dashboard_re (location eng (page obj) (browser st'))
           \<and> (\<exists>a b. location eng (page obj) (browser st') = a @ ''dashboard'' @ b)"
proof (cases "objects st this")
  case None
  with assms show ?thesis by (simp add: login_def this_page_None)
next
  case (Some obj)
  obtain res w' where run:
    "run_calls (core eng cfg) (page obj) 0 (login_calls e p) (browser st) = (res, w')"
    by (cases "run_calls (core eng cfg) (page obj) 0 (login_calls e p) (browser st)")
  from assms Some run have ok: "res = Inr ()" and st': "st' = st\<lparr>browser := w'\<rparr>"
    by (auto simp: login_run_calls finish_def split: sum.splits)
  have "login_calls e p =
      [CFill (GetByRole ''textbox'' (Some ''Email Address'')) e,
       CFill (GetByRole ''textbox'' (Some ''Password Login with OTP'')) p,
       CClick login_button] @ [CToHaveURL dashboard_re (Some 30000)]"
    by (simp add: login_calls_def)
  with run ok obtain w0 where
    "exec_call (core eng cfg) (page obj) (CToHaveURL dashboard_re (Some 30000)) w0 = (Inr (), w')"
    using run_calls_last_ok by metis
  then have "await_gate eng (page obj) (UrlMatches dashboard_re) (gate_budget cfg (Some 30000)) w0
      = (Inr (), w')"
    by (simp add: core_fields)
  then have "satisfied eng (page obj) (UrlMatches dashboard_re) w'"
    by (rule gate_success)
  then have m: "re_test dashboard_re (location eng (page obj) w')"
    by simp
  then have "\<exists>a b. location eng (page obj) w' = a @ ''dashboard'' @ b"
    by (simp only: dashboard_re_contains)
  with m Some st' show ?thesis by simp
qed

theorem login_success_saw_dashboard_witness:
  "login (core sim_engine sim_cfg) 0 ''jamesswagz24@gmail.com'' ''TestPassword''
       (session (login_page True [] [] login_url []))
     = (Inr 0, session (login_page True ''jamesswagz24@gmail.com'' ''TestPassword'' dashboard_url []))
   \<and> re_test dashboard_re (location sim_engine 7
         (browser (session (login_page True ''jamesswagz24@gmail.com'' ''TestPassword''
            dashboard_url []))))
   \<and> \<not> re_test dashboard_re (location sim_engine 7
         (browser (session (login_page True [] [] login_url []))))"
proof -
  have run: "login (core sim_engine sim_cfg) 0 ''jamesswagz24@gmail.com'' ''TestPassword''
       (session (login_page True [] [] login_url []))
     = (Inr 0, session (login_page True ''jamesswagz24@gmail.com'' ''TestPassword'' dashboard_url []))"
    by (rule sim_login_ok)
  from login_success_saw_dashboard [OF run] obtain obj where
    "objects (session (login_page True [] [] login_url [])) 0 = Some obj"
    "re_test dashboard_re (location sim_engine (page obj)
       (browser (session (login_page True ''jamesswagz24@gmail.com'' ''TestPassword''
          dashboard_url []))))"
    by blast
  then have "re_test dashboard_re (location sim_engine 7
       (browser (session (login_page True ''jamesswagz24@gmail.com'' ''TestPassword''
          dashboard_url []))))"
    by (simp add: session_fields sim_fields)
  with run show ?thesis
    by (simp add: session_fields sim_fields login_page_url login_url_no_match)
qed

text \<open>
  C2, as stated, fails on the code. The specification's \<^verbatim>\<open>runFlow\<close> wraps the first
  failure into \<^verbatim>\<open>FlowError{stepIndex, cause}\<close>; the page object has no such wrapper. On
  the simulated login page with a hidden login button the click fails: \<^verbatim>\<open>runFlow\<close>
  reports \<^verbatim>\<open>FlowError{stepIndex: 2, cause: ActionError}\<close>, while login surfaces the action
  error itself, with no step index.
\<close>

theorem login_error_not_wrapped:
  "locator_click (core sim_engine sim_cfg) 7 login_button (login_page False ''a'' ''b'' login_url [])
     = (Inl (ActionError (NotActionable ''not visible'')), login_page False ''a'' ''b'' login_url [])
   \<and> fst (login (core sim_engine sim_cfg) 0 ''a'' ''b'' (session (login_page False [] [] login_url [])))
     = Inl (ActionError (NotActionable ''not visible''))
   \<and> fst (login (core sim_engine sim_cfg) 0 ''a'' ''b'' (session (login_page False [] [] login_url [])))
     \<noteq> Inl (FlowError 2 (ActionError (NotActionable ''not visible'')))
   \<and> fst (runFlow (core sim_engine sim_cfg) 7 (login_calls ''a'' ''b'')
           (login_page False [] [] login_url []))
     = Inl (FlowError 2 (ActionError (NotActionable ''not visible'')))"
  by (simp add: sim_click_hidden sim_login_hidden runFlow_def sim_login_calls_hidden)

text \<open>
  C2, as amended. For every method of the page object and any library: when the first
  failing call is the \<open>i\<close>-th, with error \<open>err\<close>, the method rejects with \<open>err\<close> itself
  (no wrapper, no step index); the calls before it were each made once and resolved, the
  failing call was made once, and no later call was attempted. For login with a failing
  click that is two fills, one click, and no URL assertion.
\<close>

theorem first_failure_aborts:
  assumes "objects st this = Some obj" and "browser st = (w, tr)"
    and "run_calls pw (page obj) 0 (step_calls s) w = (Inl (i, err), w')"
  shows "run_step (traced pw) this s st =
     (Inl err,
      st\<lparr>browser := (w', tr @ map (\<lambda>c. (c, True)) (take i (step_calls s))
                               @ [(step_calls s ! i, False)])\<rparr>)"
  using assms
  by (simp add: run_step_run_calls run_calls_traced finish_def)

theorem first_failure_aborts_witness:
  "run_step (traced (core sim_engine sim_cfg)) 0 (Login ''a'' ''b'')
       (session (login_page False [] [] login_url [], []))
     = (Inl (ActionError (NotActionable ''not visible'')),
        session (login_page False ''a'' ''b'' login_url [],
          [(CFill (GetByRole ''textbox'' (Some ''Email Address'')) ''a'', True),
           (CFill (GetByRole ''textbox'' (Some ''Password Login with OTP'')) ''b'', True),
           (CClick login_button, False)]))"
proof -
  have a: "objects (session (login_page False [] [] login_url [], [])) 0 = Some \<lparr>page = 7\<rparr>"
    by (simp add: session_def)
  have b: "browser (session (login_page False [] [] login_url [], ([] :: trace)))
      = (login_page False [] [] login_url [], [])"
    by (simp add: session_def)
  have c: "run_calls (core sim_engine sim_cfg) (page \<lparr>page = 7\<rparr>) 0 (step_calls (Login ''a'' ''b''))
      (login_page False [] [] login_url [])
      = (Inl (2, ActionError (NotActionable ''not visible'')), login_page False ''a'' ''b'' login_url [])"
    by (simp add: sim_login_calls_hidden)
  from first_failure_aborts [OF a b c]
  show ?thesis by (simp add: login_calls_def session_def)
qed

text \<open>
  C3. In the test, the calls reach the library strictly in the order goto, login,
  searchRoute, bookTrip, and every call that is followed by another one had resolved
  before: login's first call is made only after the navigation has resolved, searchRoute's
  first call only after login's URL assertion has resolved, and bookTrip's first call only
  after the last click of searchRoute (which has no assertion gate) has resolved. The
  witness is a run on the simulated login page that gets past the URL assertion and stops
  at the first call of searchRoute.
\<close>

theorem steps_strictly_sequential:
  assumes "browser st = (w, [])"
    and "tr = snd (browser (snd (Shuttler_Booking (traced pw) pg st)))"
  shows "map fst tr = take (length tr) booking_calls
       \<and> (\<forall>j. Suc j < length tr \<longrightarrow> snd (tr ! j))
       \<and> (1 < length tr \<longrightarrow> tr ! 0 = (CGoto login_url, True))
       \<and> (5 < length tr \<longrightarrow> tr ! 4 = (CToHaveURL dashboard_re (Some 30000), True))
       \<and> (12 < length tr \<longrightarrow> tr ! 11 = (CClick (GetByTestId ''find-trips-btn''), True))"
proof -
  obtain r w' where run: "run_calls pw pg 0 booking_calls w = (r, w')"
    by (cases "run_calls pw pg 0 booking_calls w")
  have tr: "tr = calls_trace r 0 booking_calls"
    using assms run by (simp add: booking_trace)
  note res = run_calls_result [OF run]
  have order: "map fst tr = take (length tr) booking_calls"
    unfolding tr using res by (rule calls_trace_order)
  have resolved: "snd (tr ! j)" if "Suc j < length tr" for j
    using that unfolding tr using res by (simp add: calls_trace_resolved)
  have at: "tr ! j = (booking_calls ! j, True)" if "Suc j < length tr" for j
  proof -
    from that have j: "j < length tr" by simp
    have "fst (tr ! j) = map fst tr ! j" using j by simp
    also have "\<dots> = booking_calls ! j" using j by (simp add: order)
    finally show ?thesis using resolved [OF that] by (cases "tr ! j") simp
  qed
  show ?thesis
    using order resolved at [of 0] at [of 4] at [of 11] by (simp add: booking_calls_nth)
qed

theorem steps_strictly_sequential_witness:
  "length (snd (browser (snd (Shuttler_Booking (traced (core sim_engine sim_cfg)) 7
      (fresh_store (login_page True [] [] login_url [], [])))))) = 6
   \<and> snd (browser (snd (Shuttler_Booking (traced (core sim_engine sim_cfg)) 7
      (fresh_store (login_page True [] [] login_url [], []))))) ! 4
       = (CToHaveURL dashboard_re (Some 30000), True)
   \<and> snd (browser (snd (Shuttler_Booking (traced (core sim_engine sim_cfg)) 7
      (fresh_store (login_page True [] [] login_url [], []))))) ! 5
       = (CFill (GetByRole ''textbox'' (Some ''Pick up location'')) ''festac'', False)"
proof -
  let ?tr = "snd (browser (snd (Shuttler_Booking (traced (core sim_engine sim_cfg)) 7
      (fresh_store (login_page True [] [] login_url [], [])))))"
  have b: "browser (fresh_store (login_page True [] [] login_url [], ([] :: trace)))
      = (login_page True [] [] login_url [], [])"
    by (simp add: fresh_store_def)
  have "?tr = calls_trace (Inl (5, ResolutionError Timeout
      [GetByRole ''textbox'' (Some ''Pick up location'')])) 0 booking_calls"
    by (simp add: booking_trace [OF b] sim_booking_calls)
  then have len: "length ?tr = 6"
    and last: "?tr ! 5 = (CFill (GetByRole ''textbox'' (Some ''Pick up location'')) ''festac'', False)"
    by (simp_all add: booking_calls_def goto_calls_def login_calls_def searchRoute_calls_def
        route_def nth_append)
  from steps_strictly_sequential [OF b refl, of "core sim_engine sim_cfg" 7] len last
  show ?thesis by simp
qed

text \<open>
  C4. The resolver tries the strategies in the fixed priority order test id, role and
  label, visible text, CSS fallback list, on a shared budget of polls. The first strategy
  is polled, and the first poll at which it yields an element decides the resolution.
  When it yields nothing at any poll of the budget, the later strategies are observed in
  that order, and the first one that yields decides. When none yields, the resolution
  fails and lists the strategies tried. Consequently, for every descriptor whose test-id
  selector matches exactly one element, resolution returns that element at once,
  whatever the role, text and CSS selectors of the descriptor match. The witness is
  Scenario 1, where the test id resolves although two elements share the visible text
  "Login", and a descriptor that falls back through test id, role, text and the first CSS
  selector to the second CSS selector.
\<close>

theorem resolver_priority_order:
  "attempts d =
      (case testid d of None \<Rightarrow> [] | Some s \<Rightarrow> [s])
      @ (case role_label d of None \<Rightarrow> [] | Some s \<Rightarrow> [s])
      @ (case visible_text d of None \<Rightarrow> [] | Some s \<Rightarrow> [s])
      @ css_fallback d
   \<and> (attempts d = s # rest \<and> k \<le> n
        \<and> pick (ordinal d) (query eng p s ((elapse eng ^^ k) w)) = Some h
        \<and> (\<forall>j<k. pick (ordinal d) (query eng p s ((elapse eng ^^ j) w)) = None)
      \<longrightarrow> resolve eng p d n w = (Inr (h, n - k), (elapse eng ^^ k) w))
   \<and> (attempts d = s # pre @ t # post
        \<and> (\<forall>j\<le>n. pick (ordinal d) (query eng p s ((elapse eng ^^ j) w)) = None)
        \<and> (\<forall>s'\<in>set pre. pick (ordinal d) (query eng p s' ((elapse eng ^^ n) w)) = None)
        \<and> pick (ordinal d) (query eng p t ((elapse eng ^^ n) w)) = Some h
      \<longrightarrow> resolve eng p d n w = (Inr (h, 0), (elapse eng ^^ n) w))
   \<and> (attempts d = s # rest
        \<and> (\<forall>j\<le>n. pick (ordinal d) (query eng p s ((elapse eng ^^ j) w)) = None)
        \<and> (\<forall>t\<in>set rest. pick (ordinal d) (query eng p t ((elapse eng ^^ n) w)) = None)
      \<longrightarrow> resolve eng p d n w =
            (Inl (ResolutionError (failure_kind eng p (attempts d) n ((elapse eng ^^ n) w))
                    (attempts d)),
             (elapse eng ^^ n) w))
   \<and> (testid d = Some u \<and> query eng p u w = [x]
      \<longrightarrow> resolve eng p d n w = (Inr (x, n), w))"
proof (intro conjI impI)
  show "attempts d =
      (case testid d of None \<Rightarrow> [] | Some s \<Rightarrow> [s])
      @ (case role_label d of None \<Rightarrow> [] | Some s \<Rightarrow> [s])
      @ (case visible_text d of None \<Rightarrow> [] | Some s \<Rightarrow> [s])
      @ css_fallback d"
    by (simp add: attempts_def)
next
  assume "attempts d = s # rest \<and> k \<le> n
        \<and> pick (ordinal d) (query eng p s ((elapse eng ^^ k) w)) = Some h
        \<and> (\<forall>j<k. pick (ordinal d) (query eng p s ((elapse eng ^^ j) w)) = None)"
  then show "resolve eng p d n w = (Inr (h, n - k), (elapse eng ^^ k) w)"
    by (elim conjE) (rule resolve_polled)
next
  assume "attempts d = s # pre @ t # post
        \<and> (\<forall>j\<le>n. pick (ordinal d) (query eng p s ((elapse eng ^^ j) w)) = None)
        \<and> (\<forall>s'\<in>set pre. pick (ordinal d) (query eng p s' ((elapse eng ^^ n) w)) = None)
        \<and> pick (ordinal d) (query eng p t ((elapse eng ^^ n) w)) = Some h"
  then show "resolve eng p d n w = (Inr (h, 0), (elapse eng ^^ n) w)"
    by (elim conjE) (rule resolve_fallback)
next
  assume "attempts d = s # rest
        \<and> (\<forall>j\<le>n. pick (ordinal d) (query eng p s ((elapse eng ^^ j) w)) = None)
        \<and> (\<forall>t\<in>set rest. pick (ordinal d) (query eng p t ((elapse eng ^^ n) w)) = None)"
  then show "resolve eng p d n w =
            (Inl (ResolutionError (failure_kind eng p (attempts d) n ((elapse eng ^^ n) w))
                    (attempts d)),
             (elapse eng ^^ n) w)"
    by (elim conjE) (rule resolve_fails)
next
  assume a: "testid d = Some u \<and> query eng p u w = [x]"
  then obtain rest' where "attempts d = u # rest'" by (auto simp: attempts_def)
  moreover have "pick (ordinal d) (query eng p u w) = Some x"
    using a by (simp add: pick_single)
  ultimately have "try_strategies eng p (ordinal d) (attempts d) n w = (Some x, n, w)"
    by (simp add: poll_strategy_now)
  then show "resolve eng p d n w = (Inr (x, n), w)" by (simp add: resolve_def)
qed

theorem resolver_priority_order_witness:
  "resolve sim_engine 7 login_button_descriptor 3 two_logins_page = (Inr (1, 3), two_logins_page)
   \<and> query sim_engine 7 (GetByText ''Login'' True) two_logins_page = [0, 1]
   \<and> visible_text login_button_descriptor = Some (GetByText ''Login'' True)
   \<and> attempts fallback_descriptor =
        [GetByTestId ''login-button'', GetByRole ''button'' (Some ''Sign in''),
         GetByText ''Sign in'' True, Css ''#login'', Css ''.primary'']
   \<and> resolve sim_engine 7 fallback_descriptor 3 fallback_page = (Inr (1, 0), fallback_page)"
proof -
  have t: "testid login_button_descriptor = Some (GetByTestId ''login-button'')
      \<and> query sim_engine 7 (GetByTestId ''login-button'') two_logins_page = [1]"
    by (simp add: login_button_descriptor_def sim_fields two_logins_query)
  have a: "attempts fallback_descriptor =
      GetByTestId ''login-button''
        # [GetByRole ''button'' (Some ''Sign in''), GetByText ''Sign in'' True, Css ''#login'']
        @ Css ''.primary'' # []"
    by (simp add: attempts_def fallback_descriptor_def)
  have f: "attempts fallback_descriptor =
      GetByTestId ''login-button''
        # [GetByRole ''button'' (Some ''Sign in''), GetByText ''Sign in'' True, Css ''#login'']
        @ Css ''.primary'' # []
    \<and> (\<forall>j\<le>3. pick (ordinal fallback_descriptor)
          (query sim_engine 7 (GetByTestId ''login-button'')
             ((elapse sim_engine ^^ j) fallback_page)) = None)
    \<and> (\<forall>s'\<in>set [GetByRole ''button'' (Some ''Sign in''), GetByText ''Sign in'' True,
             Css ''#login''].
          pick (ordinal fallback_descriptor)
            (query sim_engine 7 s' ((elapse sim_engine ^^ 3) fallback_page)) = None)
    \<and> pick (ordinal fallback_descriptor)
          (query sim_engine 7 (Css ''.primary'') ((elapse sim_engine ^^ 3) fallback_page)) = Some 1"
    using a by (simp add: fallback_page_idle sim_fields fallback_page_query pick_def)
  from resolver_priority_order [of login_button_descriptor _ _ _ 3 sim_engine 7 two_logins_page _ _ _ _
             "GetByTestId ''login-button''" 1] t
  have r1: "resolve sim_engine 7 login_button_descriptor 3 two_logins_page
      = (Inr (1, 3), two_logins_page)"
    by blast
  from resolver_priority_order [of fallback_descriptor "GetByTestId ''login-button''" _ _ 3 sim_engine 7 fallback_page 1
      "[GetByRole ''button'' (Some ''Sign in''), GetByText ''Sign in'' True, Css ''#login'']"
      "Css ''.primary''" "[]"] f
  have r2: "resolve sim_engine 7 fallback_descriptor 3 fallback_page
      = (Inr (1, 0), (elapse sim_engine ^^ 3) fallback_page)"
    by blast
  from r1 r2 a show ?thesis
    by (simp add: fallback_page_idle sim_fields two_logins_query login_button_descriptor_def)
qed

text \<open>
  C5. Every successful execution of goto, login, searchRoute or bookTrip returns the
  reference it was invoked on, and allocates and changes no object: the result is the same
  object, not a copy.
\<close>

theorem step_returns_this:
  assumes "run_step pw this s st = (Inr r, st')"
  shows "r = this \<and> objects st' = objects st \<and> next_ref st' = next_ref st"
proof (cases "objects st this")
  case None
  with assms show ?thesis by (simp add: run_step_dangling)
next
  case (Some obj)
  have "objects st' = objects st \<and> next_ref st' = next_ref st"
    using run_step_frame [of pw this s st] assms by simp
  moreover have "r = this"
    using assms Some by (auto simp: run_step_run_calls finish_def split: prod.splits sum.splits)
  ultimately show ?thesis by simp
qed

theorem step_returns_this_witness:
  "run_step (core sim_engine sim_cfg) 0 (Login ''jamesswagz24@gmail.com'' ''TestPassword'')
       (session (login_page True [] [] login_url []))
     = (Inr 0, session (login_page True ''jamesswagz24@gmail.com'' ''TestPassword'' dashboard_url []))
   \<and> objects (session (login_page True ''jamesswagz24@gmail.com'' ''TestPassword'' dashboard_url []))
       = objects (session (login_page True [] [] login_url []))
   \<and> next_ref (session (login_page True ''jamesswagz24@gmail.com'' ''TestPassword'' dashboard_url []))
       = next_ref (session (login_page True [] [] login_url []))"
proof -
  have run: "run_step (core sim_engine sim_cfg) 0 (Login ''jamesswagz24@gmail.com'' ''TestPassword'')
       (session (login_page True [] [] login_url []))
     = (Inr 0, session (login_page True ''jamesswagz24@gmail.com'' ''TestPassword'' dashboard_url []))"
    by (simp add: sim_login_ok)
  from step_returns_this [OF run] run show ?thesis by simp
qed

text \<open>
  C6. An action on an element that is not actionable at any poll of the configured
  timeout ends with a not-actionable error naming the first failing precondition of the
  last observation, after exactly the polls the timeout allows, which take no longer
  than the timeout; the action itself is never applied. (The executor is a total
  function, so no wait runs forever.) The witness is a click on a hidden button,
  reported as "not visible".
\<close>

theorem never_actionable_times_out:
  assumes "\<forall>k\<le>polls cfg ms. first_failing eng h ((elapse eng ^^ k) w) \<noteq> None"
  shows "\<exists>c. first_failing eng h ((elapse eng ^^ polls cfg ms) w) = Some c
           \<and> act eng h a (polls cfg ms) w =
               (Inl (ActionError (NotActionable (reason c))), (elapse eng ^^ polls cfg ms) w)
           \<and> polls cfg ms * poll_interval cfg \<le> ms"
proof -
  have "polls cfg ms * poll_interval cfg \<le> ms"
    by (simp add: polls_def)
  with act_times_out [OF assms, of a] show ?thesis by blast
qed

theorem never_actionable_times_out_witness:
  "act sim_engine 2 Click (polls sim_cfg 300) (login_page False [] [] login_url []) =
     (Inl (ActionError (NotActionable ''not visible'')), login_page False [] [] login_url [])
   \<and> polls sim_cfg 300 * poll_interval sim_cfg \<le> 300 \<and> polls sim_cfg 300 = 3"
proof -
  have idle: "(elapse sim_engine ^^ k) (login_page False [] [] login_url []) =
      login_page False [] [] login_url []" for k
    by (rule funpow_idle) (simp add: sim_fields login_page_elapse)
  have "\<forall>k\<le>polls sim_cfg 300.
      first_failing sim_engine 2 ((elapse sim_engine ^^ k) (login_page False [] [] login_url [])) \<noteq> None"
    by (simp add: idle login_page_ready)
  from never_actionable_times_out [OF this, of Click]
  show ?thesis by (simp add: idle login_page_ready polls_def sim_cfg_def)
qed

text \<open>
  C7. The outcome of a step depends only on its inputs, the page and the document
  state: run on two different page objects, in different stores, that wrap the same page
  in the same browser state, a step succeeds in both runs or fails in both, and leaves the
  same browser state.
\<close>

theorem rerun_same_outcome:
  assumes "objects st1 r1 = Some o1" and "objects st2 r2 = Some o2"
    and "page o1 = page o2" and "browser st1 = browser st2"
  shows "isl (fst (run_step pw r1 s st1)) = isl (fst (run_step pw r2 s st2))
       \<and> browser (snd (run_step pw r1 s st1)) = browser (snd (run_step pw r2 s st2))"
  using assms
  by (simp add: run_step_run_calls finish_def split: prod.splits sum.splits)

theorem rerun_same_outcome_witness:
  "isl (fst (run_step (core sim_engine sim_cfg) 0 (Login ''a'' ''b'')
         (session (login_page False [] [] login_url []))))
     = isl (fst (run_step (core sim_engine sim_cfg) 3 (Login ''a'' ''b'')
         (other_session (login_page False [] [] login_url []))))
   \<and> browser (snd (run_step (core sim_engine sim_cfg) 0 (Login ''a'' ''b'')
         (session (login_page False [] [] login_url []))))
     = browser (snd (run_step (core sim_engine sim_cfg) 3 (Login ''a'' ''b'')
         (other_session (login_page False [] [] login_url []))))
   \<and> isl (fst (run_step (core sim_engine sim_cfg) 0 (Login ''a'' ''b'')
         (session (login_page False [] [] login_url []))))"
proof -
  have a: "objects (session (login_page False [] [] login_url [])) 0 = Some \<lparr>page = 7\<rparr>"
    by (simp add: session_def)
  have b: "objects (other_session (login_page False [] [] login_url [])) 3 = Some \<lparr>page = 7\<rparr>"
    by (simp add: other_session_def)
  have c: "browser (session (login_page False [] [] login_url []))
      = browser (other_session (login_page False [] [] login_url []))"
    by (simp add: session_def other_session_def)
  from rerun_same_outcome [OF a b _ c, of "core sim_engine sim_cfg" "Login ''a'' ''b''"]
  show ?thesis by (simp add: sim_login_hidden)
qed

text \<open>
  C8. Every error is terminal, with no retry and no rollback. For any library, any list
  of calls and any position \<open>i\<close> in it: when the first \<open>i\<close> calls resolve and the next
  one rejects with \<open>err\<close>, then every method whose calls these are rejects with \<open>err\<close>,
  and so does the test when they are the calls of the whole booking flow. The browser
  state is the one the failing call left, which comes after the effects of the calls
  before it, and the trace holds each of those calls once, the failing call once, and
  nothing after it. The witness is login with a hidden login button, after which the two
  text boxes still hold the email and the password, and the booking flow failing at the
  first call of searchRoute.
\<close>

theorem every_error_is_terminal:
  assumes "browser st = (w, tr)" and "i < length cs"
    and "run_calls pw p 0 (take i cs) w = (Inr (), wi)"
    and "exec_call pw p (cs ! i) wi = (Inl err, w')"
  shows "(objects st this = Some obj \<and> page obj = p \<and> cs = step_calls s
          \<longrightarrow> run_step (traced pw) this s st =
                (Inl err,
                 st\<lparr>browser := (w', tr @ map (\<lambda>c. (c, True)) (take i cs) @ [(cs ! i, False)])\<rparr>))
       \<and> (cs = booking_calls
          \<longrightarrow> Shuttler_Booking (traced pw) p st =
                (Inl err,
                 (snd (new_ShuttlerSimplePage p st))
                   \<lparr>browser := (w', tr @ map (\<lambda>c. (c, True)) (take i cs) @ [(cs ! i, False)])\<rparr>))"
proof -
  have fail: "run_calls pw p 0 cs w = (Inl (i, err), w')"
    using run_calls_fail_at [OF assms(2-4)] by simp
  then have traced: "run_calls (traced pw) p 0 cs (w, tr) =
      (Inl (i, err), (w', tr @ map (\<lambda>c. (c, True)) (take i cs) @ [(cs ! i, False)]))"
    by (simp add: run_calls_traced)
  show ?thesis
  proof (intro conjI impI)
    assume "objects st this = Some obj \<and> page obj = p \<and> cs = step_calls s"
    then have o: "objects st this = Some obj" and p: "page obj = p" and c: "cs = step_calls s"
      by simp_all
    show "run_step (traced pw) this s st =
        (Inl err, st\<lparr>browser := (w', tr @ map (\<lambda>c. (c, True)) (take i cs) @ [(cs ! i, False)])\<rparr>)"
      using traced assms(1) unfolding c p [symmetric]
      by (simp add: run_step_run_calls [OF o] finish_def)
  next
    assume c: "cs = booking_calls"
    have new: "browser (snd (new_ShuttlerSimplePage p st)) = browser st"
      by (simp add: new_ShuttlerSimplePage_def)
    show "Shuttler_Booking (traced pw) p st =
        (Inl err, (snd (new_ShuttlerSimplePage p st))
           \<lparr>browser := (w', tr @ map (\<lambda>c. (c, True)) (take i cs) @ [(cs ! i, False)])\<rparr>)"
      using traced assms(1) unfolding c
      by (simp add: booking_run_calls)
  qed
qed

theorem every_error_is_terminal_witness:
  "run_step (traced (core sim_engine sim_cfg)) 0 (Login ''a'' ''b'')
       (session (login_page False [] [] login_url [], []))
     = (Inl (ActionError (NotActionable ''not visible'')),
        session (login_page False ''a'' ''b'' login_url [],
          [(CFill (GetByRole ''textbox'' (Some ''Email Address'')) ''a'', True),
           (CFill (GetByRole ''textbox'' (Some ''Password Login with OTP'')) ''b'', True),
           (CClick login_button, False)]))
   \<and> map content (elems (login_page False ''a'' ''b'' login_url [])) = [''a'', ''b'', ''Login'']
   \<and> map content (elems (login_page False [] [] login_url [])) = ['''', '''', ''Login'']
   \<and> Shuttler_Booking (traced (core sim_engine sim_cfg)) 7
       (fresh_store (login_page True [] [] login_url [], []))
     = (Inl (ResolutionError Timeout [GetByRole ''textbox'' (Some ''Pick up location'')]),
        session (login_page True (email user) (password user) dashboard_url [],
          map (\<lambda>c. (c, True)) (goto_calls @ login_calls (email user) (password user))
          @ [(CFill (GetByRole ''textbox'' (Some ''Pick up location'')) (pickup route), False)]))"
proof -
  have b1: "browser (session (login_page False [] [] login_url [], ([] :: trace)))
      = (login_page False [] [] login_url [], [])"
    by (simp add: session_def)
  have i1: "2 < length (step_calls (Login ''a'' ''b''))"
    by (simp add: login_calls_def)
  have t1: "run_calls (core sim_engine sim_cfg) 7 0 (take 2 (step_calls (Login ''a'' ''b'')))
      (login_page False [] [] login_url []) = (Inr (), login_page False ''a'' ''b'' login_url [])"
    by (simp add: login_calls_def sim_fill_email sim_fill_password)
  have e1: "exec_call (core sim_engine sim_cfg) 7 (step_calls (Login ''a'' ''b'') ! 2)
      (login_page False ''a'' ''b'' login_url [])
      = (Inl (ActionError (NotActionable ''not visible'')), login_page False ''a'' ''b'' login_url [])"
    by (simp add: login_calls_def sim_click_hidden)
  have o1: "objects (session (login_page False [] [] login_url [], ([] :: trace))) 0
        = Some \<lparr>page = 7\<rparr>
      \<and> page \<lparr>page = 7\<rparr> = (7 :: nat)
      \<and> step_calls (Login ''a'' ''b'') = step_calls (Login ''a'' ''b'')"
    by (simp add: session_def)
  from every_error_is_terminal [OF b1 i1 t1 e1, of 0 "\<lparr>page = 7\<rparr>" "Login ''a'' ''b''"] o1
  have r1: "run_step (traced (core sim_engine sim_cfg)) 0 (Login ''a'' ''b'')
       (session (login_page False [] [] login_url [], []))
     = (Inl (ActionError (NotActionable ''not visible'')),
        (session (login_page False [] [] login_url [], []))
          \<lparr>browser := (login_page False ''a'' ''b'' login_url [],
             [] @ map (\<lambda>c. (c, True)) (take 2 (step_calls (Login ''a'' ''b'')))
                @ [(step_calls (Login ''a'' ''b'') ! 2, False)])\<rparr>)"
    by blast
  have b2: "browser (fresh_store (login_page True [] [] login_url [], ([] :: trace)))
      = (login_page True [] [] login_url [], [])"
    by (simp add: fresh_store_def)
  have i2: "5 < length booking_calls"
    by (simp add: booking_calls_nth)
  have t2: "run_calls (core sim_engine sim_cfg) 7 0 (take 5 booking_calls)
      (login_page True [] [] login_url [])
      = (Inr (), login_page True (email user) (password user) dashboard_url [])"
    by (simp add: take_booking_calls sim_goto_login_calls)
  have e2: "exec_call (core sim_engine sim_cfg) 7 (booking_calls ! 5)
      (login_page True (email user) (password user) dashboard_url [])
      = (Inl (ResolutionError Timeout [GetByRole ''textbox'' (Some ''Pick up location'')]),
         login_page True (email user) (password user) dashboard_url [])"
    by (simp add: take_booking_calls sim_fill_pickup)
  from every_error_is_terminal [OF b2 i2 t2 e2]
  have r2: "Shuttler_Booking (traced (core sim_engine sim_cfg)) 7
       (fresh_store (login_page True [] [] login_url [], []))
     = (Inl (ResolutionError Timeout [GetByRole ''textbox'' (Some ''Pick up location'')]),
        (snd (new_ShuttlerSimplePage 7 (fresh_store (login_page True [] [] login_url [], []))))
          \<lparr>browser := (login_page True (email user) (password user) dashboard_url [],
             [] @ map (\<lambda>c. (c, True)) (take 5 booking_calls) @ [(booking_calls ! 5, False)])\<rparr>)"
    by blast
  have s2: "snd (new_ShuttlerSimplePage 7 (fresh_store x)) = session x" for x :: "sim \<times> trace"
    by (simp add: new_ShuttlerSimplePage_def fresh_store_def session_def)
  from r1 r2 show ?thesis
    by (simp add: s2 take_booking_calls session_def login_calls_def login_page_def)
qed

text \<open>
  C9. Every operation of the page object leaves its stored page unchanged: after any
  sequence of invocations of goto, login, searchRoute and bookTrip on a freshly
  constructed page object, whatever their outcomes, the object store is exactly the store
  the constructor left, so \<^verbatim>\<open>this.page\<close> is still the page passed to the constructor
  and no other field or object has been assigned.
\<close>

theorem page_field_unchanged:
  "objects (run_steps pw (fst (new_ShuttlerSimplePage pg st)) ss (snd (new_ShuttlerSimplePage pg st)))
     = (objects st)(next_ref st \<mapsto> \<lparr>page = pg\<rparr>)
   \<and> fst (new_ShuttlerSimplePage pg st) = next_ref st"
  by (simp add: run_steps_frame) (simp add: new_ShuttlerSimplePage_def)

text \<open>
  C10. bookTrip returns successfully exactly when the click on the trip entry and the
  click on the booking button succeed and the first label whose text matches
  \<^verbatim>\<open>/pay with/i\<close> is visible at one of the polls of the assertion timeout; it then returns
  \<^verbatim>\<open>this\<close> in a state where that label is visible. Otherwise it fails with an error and
  returns no session.
\<close>

theorem bookTrip_success_iff:
  assumes "objects st this = Some obj"
    and "locator_click (core eng cfg) (page obj) (GetByText t False) (browser st) = (r1, w1)"
    and "locator_click (core eng cfg) (page obj) (GetByRole ''button'' (Some book_trip_name)) w1
           = (r2, w2)"
  shows "if \<not> isl r1 \<and> \<not> isl r2
            \<and> (\<exists>k\<le>gate_budget cfg None. first_label_visible eng (page obj) ((elapse eng ^^ k) w2))
         then \<exists>st'. bookTrip (core eng cfg) this t st = (Inr this, st')
                \<and> first_label_visible eng (page obj) (browser st')
         else isl (fst (bookTrip (core eng cfg) this t st))"
proof -
  let ?gate = "await_gate eng (page obj) (ElementVisible pay_with_label) (gate_budget cfg None)"
  have run: "bookTrip (core eng cfg) this t st =
      finish this st (run_calls (core eng cfg) (page obj) 0 (bookTrip_calls t) (browser st))"
    using assms(1) by (rule bookTrip_run_calls)
  show ?thesis
  proof (cases "\<not> isl r1 \<and> \<not> isl r2")
    case False
    with assms(2,3) show ?thesis
      by (auto simp: run bookTrip_calls_def finish_def split: sum.splits prod.splits)
  next
    case True
    then obtain u1 u2 where r: "r1 = Inr u1" "r2 = Inr u2"
      by (cases r1; cases r2) auto
    have calls: "run_calls (core eng cfg) (page obj) 0 (bookTrip_calls t) (browser st) =
        (case ?gate w2 of (Inl e, w') \<Rightarrow> (Inl (2, e), w') | (Inr u, w') \<Rightarrow> (Inr (), w'))"
      using assms(2,3) r
      by (simp add: bookTrip_calls_def core_fields numeral_2_eq_2 split: prod.splits sum.splits)
    show ?thesis
    proof (cases "\<exists>k\<le>gate_budget cfg None.
        first_label_visible eng (page obj) ((elapse eng ^^ k) w2)")
      case yes: True
      then have "\<exists>w'. ?gate w2 = (Inr (), w')"
        by (simp add: gate_result satisfied_pay_with_label del: satisfied.simps)
      then obtain w' where g: "?gate w2 = (Inr (), w')" by blast
      then have "satisfied eng (page obj) (ElementVisible pay_with_label) w'"
        by (rule gate_success)
      then have "first_label_visible eng (page obj) w'"
        by (simp add: satisfied_pay_with_label del: satisfied.simps)
      with g True yes show ?thesis
        by (simp add: run calls finish_def)
    next
      case no: False
      then have "\<not> (\<exists>w'. ?gate w2 = (Inr (), w'))"
        by (simp add: gate_result satisfied_pay_with_label del: satisfied.simps)
      then obtain e w' where "?gate w2 = (Inl e, w')"
        by (cases "?gate w2"; cases "fst (?gate w2)") auto
      with no show ?thesis
        by (simp add: run calls finish_def)
    qed
  qed
qed

theorem bookTrip_success_iff_witness:
  "\<exists>st'. bookTrip (core sim_engine sim_cfg) 0 (tripId route) (session (trips_page False []))
            = (Inr 0, st')
     \<and> first_label_visible sim_engine 7 (browser st')"
proof -
  have t: "tripId route = ''FST20006:00 AM''" by (simp add: route_def)
  have vis: "\<exists>k\<le>gate_budget sim_cfg None.
      first_label_visible sim_engine 7 ((elapse sim_engine ^^ k) (trips_page False [(1, Reveal 2)]))"
  proof (intro exI conjI)
    show "Suc 0 \<le> gate_budget sim_cfg None"
      by (simp add: gate_budget_def polls_def sim_cfg_def)
    show "first_label_visible sim_engine 7
        ((elapse sim_engine ^^ Suc 0) (trips_page False [(1, Reveal 2)]))"
      by (simp add: sim_fields trips_page_elapse trips_label)
  qed
  have h1: "objects (session (trips_page False [])) 0 = Some \<lparr>page = 7\<rparr>"
    by (simp add: session_fields)
  have h2: "locator_click (core sim_engine sim_cfg) (page \<lparr>page = 7\<rparr>)
      (GetByText (tripId route) False) (browser (session (trips_page False [])))
        = (Inr (), trips_page False [])"
    by (simp add: t session_fields sim_click_trip)
  have h3: "locator_click (core sim_engine sim_cfg) (page \<lparr>page = 7\<rparr>)
      (GetByRole ''button'' (Some book_trip_name)) (trips_page False [])
        = (Inr (), trips_page False [(1, Reveal 2)])"
    by (simp add: sim_click_book)
  from bookTrip_success_iff [OF h1 h2 h3] vis
  show ?thesis by simp
qed

end
